theory Spec2Isabelle
  imports Complex_Main
begin

section \<open>The rough Bergomi path generator of pfhedge.stochastic.rough_bergomi\<close>

text \<open>
  The development embeds \<^verbatim>\<open>generate_rough_bergomi\<close> line by line.

  \<^item> Tensor entries are real numbers: sums, products, \<open>exp\<close> and powers are exact.
    Rounding, overflow and underflow of the floating-point formats are outside the model.
    So \<open>exp\<close> is never zero or infinite here although it underflows and overflows in
    the program, a product is associative here although it is rounded in the program,
    and the covariance matrix is tested for positive definiteness as it is written, not
    after its cast to the tensor's precision. Properties that rest on these differences
    are not stated.
  \<^item> A rank-2 tensor is a list of rows (one row per path); the tensor of bivariate draws
    is a list of rows of pairs.
  \<^item> The global random generator of torch is the sequence of standard normal variates it
    is going to deliver; drawing \<open>n\<close> values returns the first \<open>n\<close> of them and the
    sequence that remains.
  \<^item> A Python exception is a value \<open>Inl e\<close>; the generator state that is returned with it
    tells how many variates had been drawn when the exception was raised.
  \<^item> \<^verbatim>\<open>torch.sqrt\<close> of a negative entry is NaN; on the price path, where a caller
    can reach it, an entry is a \<open>real option\<close> and \<open>None\<close> is NaN. The square root of
    \<open>2 alpha + 1\<close> and the powers on the variance path are reached only after the
    sampler has been built, which needs \<open>dt > 0\<close> and \<open>alpha > -1/2\<close> (lemma
    \<open>dW1_generator_Inr_D\<close>): their arguments are in the domain where the real functions
    \<open>sqrt\<close> and \<open>powr\<close> are the functions of torch.
  \<^item> The arguments are scalars and \<open>init_state\<close> is a pair of scalars or absent; the
    named tuple that is returned is the pair \<open>(spot, variance)\<close>.
\<close>

subsection \<open>Arguments, errors, random source\<close>

record params =
  n_paths :: int
  n_steps :: int
  init_state :: "(real \<times> real) option"
  alpha :: real
  rho :: real
  eta :: real
  xi :: real
  dt :: real

text \<open>
  The exceptions that the body can raise: Python's own \<open>ZeroDivisionError\<close> (float
  division by zero, \<open>0.0\<close> to a negative power), the \<open>ValueError\<close> with which
  \<^verbatim>\<open>MultivariateNormal\<close> rejects a covariance matrix that is not positive definite, the
  \<open>RuntimeError\<close> of torch for a negative tensor dimension or a shape that \<^verbatim>\<open>conv1d\<close>
  refuses, and the \<open>IndexError\<close> of an index tensor out of range.
\<close>

datatype error = ZeroDivisionError | ValueError | RuntimeError | IndexError

type_synonym rng = "nat \<Rightarrow> real"

text \<open>A Python scalar after \<^verbatim>\<open>**\<close>: a float, or a complex number (whose value is not kept).\<close>

datatype pynum = PyFloat real | PyComplex

definition py_pow :: "real \<Rightarrow> real \<Rightarrow> error + pynum" where
  "py_pow x y =
     (if y = 0 then Inr (PyFloat 1)
      else if x = 0 then (if y < 0 then Inl ZeroDivisionError else Inr (PyFloat 0))
      else if 0 < x then Inr (PyFloat (x powr y))
      else if of_int \<lfloor>y\<rfloor> = y
        then Inr (PyFloat ((if even \<lfloor>y\<rfloor> then 1 else - 1) * (\<bar>x\<bar> powr y)))
      else Inr PyComplex)"

definition py_truediv :: "pynum \<Rightarrow> real \<Rightarrow> error + pynum" where
  "py_truediv v d =
     (if d = 0 then Inl ZeroDivisionError
      else (case v of PyFloat r \<Rightarrow> Inr (PyFloat (r / d)) | PyComplex \<Rightarrow> Inr PyComplex))"

text \<open>Lines 97 and 98: the two off-diagonal and lower-right covariance entries.\<close>

definition dW1_cov :: "real \<Rightarrow> real \<Rightarrow> error + pynum" where
  "dW1_cov d e = (case py_pow d e of Inl err \<Rightarrow> Inl err | Inr v \<Rightarrow> py_truediv v e)"

text \<open>
  \<^verbatim>\<open>MultivariateNormal(loc, covariance_matrix)\<close> for the symmetric matrix
  \<open>[[a, b], [b, c]]\<close>: the constructor factorises the matrix (Cholesky) and raises unless
  it is positive definite; a matrix with a complex entry is rejected as well. The value
  kept is the lower-triangular factor \<open>(l00, l10, l11)\<close>.
\<close>

type_synonym scale_tril = "real \<times> real \<times> real"

definition MultivariateNormal :: "real \<Rightarrow> pynum \<Rightarrow> pynum \<Rightarrow> error + scale_tril" where
  "MultivariateNormal a c1 c2 =
     (case c1 of PyComplex \<Rightarrow> Inl ValueError
      | PyFloat b \<Rightarrow>
        (case c2 of PyComplex \<Rightarrow> Inl ValueError
         | PyFloat c \<Rightarrow>
           if 0 < a \<and> 0 < a * c - b * b
           then Inr (sqrt a, b / sqrt a, sqrt (c - (b / sqrt a) * (b / sqrt a)))
           else Inl ValueError))"

text \<open>Lines 97 to 105.\<close>

definition dW1_generator :: "real \<Rightarrow> real \<Rightarrow> error + scale_tril" where
  "dW1_generator d a =
     (case dW1_cov d (a + 1) of Inl err \<Rightarrow> Inl err
      | Inr c1 \<Rightarrow>
        (case dW1_cov d (2 * a + 1) of Inl err \<Rightarrow> Inl err
         | Inr c2 \<Rightarrow> MultivariateNormal d c1 c2))"

text \<open>Drawing \<open>n\<close> standard normal variates from the generator.\<close>

definition standard_normal :: "nat \<Rightarrow> rng \<Rightarrow> real list \<times> rng" where
  "standard_normal n g = (map g [0..<n], (\<lambda>i. g (n + i)))"

text \<open>
  \<^verbatim>\<open>sample([n, m])\<close>: a tensor of shape \<open>(n, m, 2)\<close> of standard normal variates, filled
  row-major, each pair multiplied by the Cholesky factor. A negative dimension raises
  before anything is drawn.
\<close>

definition sample :: "scale_tril \<Rightarrow> int \<Rightarrow> int \<Rightarrow> rng \<Rightarrow> error + ((real \<times> real) list list \<times> rng)" where
  "sample L n m g =
     (if n < 0 \<or> m < 0 then Inl RuntimeError
      else (case L of (l00, l10, l11) \<Rightarrow>
        (case standard_normal (nat n * nat m * 2) g of (eps, g') \<Rightarrow>
           Inr (map (\<lambda>p. map (\<lambda>s.
                       (l00 * eps ! ((p * nat m + s) * 2),
                        l10 * eps ! ((p * nat m + s) * 2) + l11 * eps ! ((p * nat m + s) * 2 + 1)))
                     [0..<nat m]) [0..<nat n], g'))))"

text \<open>\<^verbatim>\<open>torch.randn([n, m])\<close>.\<close>

definition randn :: "int \<Rightarrow> int \<Rightarrow> rng \<Rightarrow> error + (real list list \<times> rng)" where
  "randn n m g =
     (if n < 0 \<or> m < 0 then Inl RuntimeError
      else (case standard_normal (nat n * nat m) g of (z, g') \<Rightarrow>
        Inr (map (\<lambda>p. map (\<lambda>s. z ! (p * nat m + s)) [0..<nat m]) [0..<nat n], g')))"

subsection \<open>Tensor operations\<close>

definition zeros :: "nat \<Rightarrow> real list" where
  "zeros n = replicate n 0"

text \<open>
  \<^verbatim>\<open>torch.arange(a, b)\<close> and \<^verbatim>\<open>torch.arange(-1, -1 - n, -1)\<close>. A range whose end
  lies on the wrong side of its start for the sign of the step is refused with a
  \<open>RuntimeError\<close>; a range that ends where it starts is empty.
\<close>

definition arange :: "int \<Rightarrow> int \<Rightarrow> error + real list" where
  "arange a b = (if b < a then Inl RuntimeError else Inr (map of_int [a..b - 1]))"

definition arange_down :: "int \<Rightarrow> error + int list" where
  "arange_down n =
     (if - 1 < - 1 - n then Inl RuntimeError else Inr (map (\<lambda>i. - 1 - int i) [0..<nat n]))"

text \<open>
  \<^verbatim>\<open>conv1d(input, weight, padding)\<close> for an input of shape \<open>(1, 1, L)\<close> and a weight of
  shape \<open>(C, 1, K)\<close>, stride 1: the cross-correlation of the zero-padded input with each
  weight row, output shape \<open>(1, C, L + 2 padding - K + 1)\<close>. The shape check refuses a
  negative padding, a weight without output channel, and a kernel wider than the padded
  input. \<open>K\<close> is passed along because a list of no rows does not tell its width.
\<close>

definition conv1d :: "real list \<Rightarrow> real list list \<Rightarrow> nat \<Rightarrow> int \<Rightarrow> error + real list list" where
  "conv1d inp weight K padding =
     (if padding < 0 then Inl RuntimeError
      else if length weight < 1 then Inl RuntimeError
      else if int (length inp) + 2 * padding < int K then Inl RuntimeError
      else
        (let padded = zeros (nat padding) @ inp @ zeros (nat padding);
             Lout = nat (int (length inp) + 2 * padding - int K + 1)
         in Inr (map (\<lambda>w. map (\<lambda>t. sum_list (map (\<lambda>k. w ! k * padded ! (t + k)) [0..<K]))
                             [0..<Lout]) weight)))"

text \<open>
  \<^verbatim>\<open>t[:, idx]\<close> for an index tensor \<open>idx\<close>: a negative index counts from the end of the
  row; \<open>width\<close> is the size of dimension 1.
\<close>

definition index_cols :: "real list list \<Rightarrow> nat \<Rightarrow> int list \<Rightarrow> error + real list list" where
  "index_cols t width idx =
     (if list_ex (\<lambda>j. j < - int width \<or> int width \<le> j) idx then Inl IndexError
      else Inr (map (\<lambda>row. map (\<lambda>j. row ! nat (if j < 0 then int width + j else j)) idx) t))"

text \<open>NaN-aware arithmetic for the price path: \<open>None\<close> is NaN and is absorbing.\<close>

type_synonym tfloat = "real option"

definition torch_sqrt :: "real \<Rightarrow> tfloat" where
  "torch_sqrt x = (if x < 0 then None else Some (sqrt x))"

definition nan_lift2 :: "(real \<Rightarrow> real \<Rightarrow> real) \<Rightarrow> tfloat \<Rightarrow> tfloat \<Rightarrow> tfloat" where
  "nan_lift2 f a b =
     (case a of None \<Rightarrow> None | Some x \<Rightarrow> (case b of None \<Rightarrow> None | Some y \<Rightarrow> Some (f x y)))"

fun cumsum_from :: "tfloat \<Rightarrow> tfloat list \<Rightarrow> tfloat list" where
  "cumsum_from acc [] = []"
| "cumsum_from acc (x # xs) = nan_lift2 (+) acc x # cumsum_from (nan_lift2 (+) acc x) xs"

definition cumsum :: "tfloat list \<Rightarrow> tfloat list" where
  "cumsum xs = cumsum_from (Some 0) xs"

subsection \<open>The body of generate_rough_bergomi\<close>

text \<open>
  Modelled from the spec: \<^verbatim>\<open>cast_state\<close> of \<^verbatim>\<open>pfhedge.stochastic._utils\<close> is not part
  of the sources at hand. The spec treats the selection of numeric precision and device
  as plumbing, so the cast leaves the values of a state tuple as they are.
\<close>

definition cast_state :: "'a \<Rightarrow> 'a" where
  "cast_state s = s"

text \<open>Lines 89 to 92.\<close>

definition init_state_of :: "params \<Rightarrow> real \<times> real" where
  "init_state_of P = cast_state (case init_state P of None \<Rightarrow> (1, xi P) | Some s \<Rightarrow> s)"

text \<open>Lines 111 to 113.\<close>

definition Y1 :: "(real \<times> real) list list \<Rightarrow> real list list" where
  "Y1 dW1 = map (\<lambda>row. 0 # map snd row) dW1"

text \<open>
  Lines 114 to 116. The exponent \<open>1 / a\<close> is a Python float division and raises for
  \<open>a = 0\<close>; the other operations act on the tensor \<open>ks\<close>.
\<close>

definition discrete_TBSS_fn :: "real list \<Rightarrow> real \<Rightarrow> error + real list" where
  "discrete_TBSS_fn ks a =
     (if a = 0 then Inl ZeroDivisionError
      else Inr (map (\<lambda>k. ((k powr (a + 1) - (k - 1) powr (a + 1)) / (a + 1)) powr (1 / a)) ks))"

text \<open>Lines 117 to 121; the argument \<^verbatim>\<open>torch.arange(2, n_steps)\<close> is evaluated first.\<close>

definition gamma :: "real \<Rightarrow> int \<Rightarrow> error + real list" where
  "gamma a n =
     (case arange 2 n of Inl err \<Rightarrow> Inl err
      | Inr ks \<Rightarrow>
        (case discrete_TBSS_fn ks a of Inl err \<Rightarrow> Inl err
         | Inr tb \<Rightarrow> Inr (zeros 2 @ map (\<lambda>b. (b / of_int (n - 1)) powr a) tb)))"

text \<open>Line 122.\<close>

definition Xi :: "(real \<times> real) list list \<Rightarrow> real list list" where
  "Xi dW1 = map (map fst) dW1"

text \<open>
  Lines 123 to 127: the reversed weights are the input, the rows of \<open>Xi\<close> are the
  kernels, the padding is the width of \<open>Xi\<close> less one; \<open>m\<close> is that width
  (\<^verbatim>\<open>_Xi.size(1)\<close>).
\<close>

definition GXi_convolve :: "real list \<Rightarrow> real list list \<Rightarrow> nat \<Rightarrow> error + real list list" where
  "GXi_convolve gam X m = conv1d (rev gam) X m (int m - 1)"

text \<open>Line 128; the width of the convolution output is \<open>L + 2 (m - 1) - m + 1\<close>.\<close>

definition Y2 :: "real list \<Rightarrow> real list list \<Rightarrow> nat \<Rightarrow> int \<Rightarrow> error + real list list" where
  "Y2 gam X m n =
     (case GXi_convolve gam X m of Inl err \<Rightarrow> Inl err
      | Inr G \<Rightarrow>
        (case arange_down n of Inl err \<Rightarrow> Inl err
         | Inr idx \<Rightarrow> index_cols G (nat (int (length gam) + 2 * (int m - 1) - int m + 1)) idx))"

text \<open>Line 129.\<close>

definition Y :: "real \<Rightarrow> real list list \<Rightarrow> real list list \<Rightarrow> real list list" where
  "Y a y1 y2 = map2 (map2 (\<lambda>u v. sqrt (2 * a + 1) * (u + v))) y1 y2"

text \<open>Line 130.\<close>

definition dB :: "real \<Rightarrow> real list list \<Rightarrow> real list list \<Rightarrow> tfloat list list" where
  "dB r X dW2 =
     map2 (map2 (\<lambda>x w. nan_lift2 (+) (Some (r * x)) (nan_lift2 (*) (torch_sqrt (1 - r * r)) (Some w))))
       X dW2"

text \<open>
  Lines 131 to 137 for the steps \<open>ts\<close> of \<^verbatim>\<open>torch.arange(0, n_steps)\<close>; the time grid
  \<open>ts * dt\<close> is broadcast over the paths.
\<close>

definition variance ::
  "real \<Rightarrow> real \<Rightarrow> real \<Rightarrow> real \<Rightarrow> real list \<Rightarrow> real list list \<Rightarrow> real list list" where
  "variance v0 e a d ts y =
     map (\<lambda>row. map2 (\<lambda>u t. v0 * exp (e * u - 0.5 * (e * e) * ((t * d) powr (2 * a + 1))))
                  row ts) y"

text \<open>Lines 139 to 144.\<close>

definition increments :: "real \<Rightarrow> real list list \<Rightarrow> tfloat list list \<Rightarrow> tfloat list list" where
  "increments d var db =
     map2 (map2 (\<lambda>v b. nan_lift2 (-) (nan_lift2 (*) (torch_sqrt v) b) (Some (0.5 * v * d))))
       (map butlast var) db"

definition log_return :: "tfloat list list \<Rightarrow> tfloat list list" where
  "log_return inc = map (\<lambda>row. Some 0 # cumsum row) inc"

definition prices :: "real \<Rightarrow> tfloat list list \<Rightarrow> tfloat list list" where
  "prices s0 lr = map (map (map_option (\<lambda>l. s0 * exp l))) lr"

text \<open>Lines 111 to 129 for given bivariate draws: the Volterra process.\<close>

definition Y_of_draws :: "params \<Rightarrow> (real \<times> real) list list \<Rightarrow> error + real list list" where
  "Y_of_draws P dW1 =
     (case gamma (alpha P) (n_steps P) of Inl err \<Rightarrow> Inl err
      | Inr gam \<Rightarrow>
        (case Y2 gam (Xi dW1) (nat (n_steps P - 1)) (n_steps P) of Inl err \<Rightarrow> Inl err
         | Inr y2 \<Rightarrow> Inr (Y (alpha P) (Y1 dW1) y2)))"

text \<open>
  Lines 109 to 146 for given draws: everything after the two calls of the random
  generator. \<open>dW2\<close> is the tensor of \<^verbatim>\<open>torch.randn\<close> before its scaling on line 109.
\<close>

definition paths ::
  "params \<Rightarrow> (real \<times> real) list list \<Rightarrow> real list list \<Rightarrow> error + (tfloat list list \<times> real list list)" where
  "paths P dW1 dW2 =
     (case Y_of_draws P dW1 of Inl err \<Rightarrow> Inl err
      | Inr y \<Rightarrow>
        (case arange 0 (n_steps P) of Inl err \<Rightarrow> Inl err
         | Inr ts \<Rightarrow>
           (let var = variance (snd (init_state_of P)) (eta P) (alpha P) (dt P) ts y;
                db = dB (rho P) (Xi dW1) (map (map (\<lambda>z. z * sqrt (dt P))) dW2)
            in Inr (prices (fst (init_state_of P)) (log_return (increments (dt P) var db)), var))))"

text \<open>The function: the sampler is built, the two tensors are drawn, the paths follow.\<close>

definition generate_rough_bergomi ::
  "params \<Rightarrow> rng \<Rightarrow> (error + (tfloat list list \<times> real list list)) \<times> rng" where
  "generate_rough_bergomi P g =
     (case dW1_generator (dt P) (alpha P) of Inl err \<Rightarrow> (Inl err, g)
      | Inr L \<Rightarrow>
        (case sample L (n_paths P) (n_steps P - 1) g of Inl err \<Rightarrow> (Inl err, g)
         | Inr (dW1, g1) \<Rightarrow>
           (case randn (n_paths P) (n_steps P - 1) g1 of Inl err \<Rightarrow> (Inl err, g1)
            | Inr (dW2, g2) \<Rightarrow> (paths P dW1 dW2, g2))))"

subsection \<open>Reference definitions\<close>

text \<open>
  The causal weighted sum in the words of the specification:
  \<open>Y2[i]\<close> is the sum of \<open>gamma[i - j] * dW1[j]\<close> over \<open>j < i\<close>.
\<close>

definition Y2_direct :: "real list \<Rightarrow> real list \<Rightarrow> nat \<Rightarrow> real" where
  "Y2_direct gam x i = (\<Sum>j<i. gam ! (i - j) * x ! j)"

text \<open>
  The parameter sets that the specification calls valid: at least one path and one step,
  a positive step size, a correlation in \<open>[-1, 1]\<close>, positive \<open>eta\<close> and \<open>xi\<close>, and
  \<open>alpha\<close> strictly between \<open>-1/2\<close> and \<open>0\<close>.
\<close>

definition valid_params :: "params \<Rightarrow> bool" where
  "valid_params P \<longleftrightarrow>
     1 \<le> n_paths P \<and> 1 \<le> n_steps P \<and> 0 < dt P \<and> - 1 \<le> rho P \<and> rho P \<le> 1
     \<and> 0 < eta P \<and> 0 < xi P \<and> - 1 / 2 < alpha P \<and> alpha P < 0"

text \<open>
  The call of the docstring example, \<^verbatim>\<open>generate_rough_bergomi(2, 5)\<close> with the default
  arguments, and a generator that delivers zeros only.
\<close>

definition docstring_params :: params where
  "docstring_params =
     \<lparr>n_paths = 2, n_steps = 5, init_state = None, alpha = - 2 / 5, rho = - 9 / 10,
      eta = 19 / 10, xi = 1 / 25, dt = 1 / 250\<rparr>"

definition zero_rng :: rng where
  "zero_rng = (\<lambda>i. 0)"

text \<open>A tensor of bivariate draws for two paths and five steps.\<close>

definition example_draws :: "(real \<times> real) list list" where
  "example_draws = [[(1, 2), (3, 4), (5, 6), (7, 8)], [(0, 1), (1, 0), (2, 2), (1, 1)]]"

text \<open>A generator that delivers 24 zeros and ones from then on.\<close>

definition zeros_then_ones_rng :: rng where
  "zeros_then_ones_rng = (\<lambda>i. if i < 24 then 0 else 1)"

section \<open>Supporting lemmas\<close>

subsection \<open>Kernel weights\<close>

lemma arange_Inr_D:
  "arange a b = Inr ks \<Longrightarrow> a \<le> b \<and> length ks = nat (b - a) \<and> (\<forall>k<nat (b - a). ks ! k = of_int (a + int k))"
  by (auto simp: arange_def split: if_splits)

lemma arange_Inr: "a \<le> b \<Longrightarrow> arange a b = Inr (map of_int [a..b - 1])"
  by (simp add: arange_def)

lemma gamma_Inr:
  "a \<noteq> 0 \<Longrightarrow> 2 \<le> n \<Longrightarrow>
   gamma a n = Inr (zeros 2 @
     map (\<lambda>k. ((((k powr (a + 1) - (k - 1) powr (a + 1)) / (a + 1)) powr (1 / a)) / of_int (n - 1)) powr a)
       (map of_int [2..n - 1]))"
  by (simp add: gamma_def discrete_TBSS_fn_def arange_def)

lemma gamma_Inr_D: "gamma a n = Inr gs \<Longrightarrow> 2 \<le> n \<and> a \<noteq> 0"
  by (auto simp: gamma_def discrete_TBSS_fn_def arange_def split: if_splits)

lemma length_gamma: "gamma a n = Inr gs \<Longrightarrow> length gs = nat n"
  by (auto simp: gamma_def discrete_TBSS_fn_def zeros_def arange_def split: if_splits)

lemma gamma_head: "gamma a n = Inr gs \<Longrightarrow> gs ! 0 = 0 \<and> gs ! 1 = 0"
  by (auto simp: gamma_def discrete_TBSS_fn_def zeros_def arange_def numeral_2_eq_2 split: if_splits)

lemma gamma_raises: "n < 2 \<Longrightarrow> gamma a n = Inl RuntimeError"
  by (simp add: gamma_def arange_def)

subsection \<open>The sampler is built exactly for a positive step and alpha in (-1/2, 0) or above 0\<close>

lemma dW1_cov_pos:
  "0 < d \<Longrightarrow> dW1_cov d e = (if e = 0 then Inl ZeroDivisionError else Inr (PyFloat (d powr e / e)))"
  by (simp add: dW1_cov_def py_pow_def py_truediv_def)

lemma frac_alg:
  fixes a u :: real
  assumes "a + 1 \<noteq> 0" "2 * a + 1 \<noteq> 0"
  shows "u * u / (2 * a + 1) - (u / (a + 1)) * (u / (a + 1)) = u\<^sup>2 * a\<^sup>2 / ((2 * a + 1) * (a + 1)\<^sup>2)"
proof -
  have "u * u / (2 * a + 1) - (u / (a + 1)) * (u / (a + 1))
        = (u * u * (a + 1)\<^sup>2 - u * u * (2 * a + 1)) / ((2 * a + 1) * (a + 1)\<^sup>2)"
    using assms by (simp add: divide_simps power2_eq_square)
  also have "u * u * (a + 1)\<^sup>2 - u * u * (2 * a + 1) = u\<^sup>2 * a\<^sup>2"
    by (simp add: power2_eq_square algebra_simps)
  finally show ?thesis .
qed

lemma cov_det:
  assumes d: "0 < (d::real)" and a1: "(a::real) + 1 \<noteq> 0" and a2: "2 * a + 1 \<noteq> 0"
  shows "d * (d powr (2 * a + 1) / (2 * a + 1)) - (d powr (a + 1) / (a + 1)) * (d powr (a + 1) / (a + 1))
         = (d powr (a + 1))\<^sup>2 * a\<^sup>2 / ((2 * a + 1) * (a + 1)\<^sup>2)"
proof -
  let ?u = "d powr (a + 1)"
  have "d * d powr (2 * a + 1) = d powr 1 * d powr (2 * a + 1)"
    using d by simp
  also have "\<dots> = d powr (1 + (2 * a + 1))"
    by (simp only: powr_add)
  also have "1 + (2 * a + 1) = (a + 1) + (a + 1)"
    by simp
  also have "d powr ((a + 1) + (a + 1)) = ?u * ?u"
    by (simp only: powr_add)
  finally have dd: "d * d powr (2 * a + 1) = ?u * ?u" .
  have "d * (d powr (2 * a + 1) / (2 * a + 1)) = (d * d powr (2 * a + 1)) / (2 * a + 1)"
    by simp
  also have "\<dots> = ?u * ?u / (2 * a + 1)"
    by (simp only: dd)
  finally show ?thesis
    by (simp only: frac_alg [OF a1 a2, of ?u])
qed

lemma dW1_generator_Inr:
  assumes "0 < d" "- 1 / 2 < a" "a \<noteq> 0"
  shows "\<exists>L. dW1_generator d a = Inr L"
proof -
  have a1: "a + 1 \<noteq> 0" and a2: "2 * a + 1 \<noteq> 0" and a2p: "0 < 2 * a + 1" and a1p: "0 < a + 1"
    using assms by auto
  have "0 < (d powr (a + 1))\<^sup>2 * a\<^sup>2 / ((2 * a + 1) * (a + 1)\<^sup>2)"
    using assms a2p a1p by simp
  then have "0 < d * (d powr (2 * a + 1) / (2 * a + 1)) - (d powr (a + 1) / (a + 1)) * (d powr (a + 1) / (a + 1))"
    using cov_det [OF assms(1) a1 a2] by simp
  then show ?thesis
    using assms(1) a1 a2
    by (simp add: dW1_generator_def dW1_cov_pos MultivariateNormal_def)
qed

lemma MultivariateNormal_Inr_D: "MultivariateNormal d c1 c2 = Inr L \<Longrightarrow> 0 < d"
  by (auto simp: MultivariateNormal_def split: pynum.splits if_splits)

lemma dW1_generator_Inr_D:
  assumes "dW1_generator d a = Inr L"
  shows "0 < d \<and> - 1 / 2 < a \<and> a \<noteq> 0"
proof -
  have d: "0 < d"
    using assms by (auto simp: dW1_generator_def split: sum.splits dest: MultivariateNormal_Inr_D)
  have a1: "a + 1 \<noteq> 0" and a2: "2 * a + 1 \<noteq> 0"
    using assms d by (auto simp: dW1_generator_def dW1_cov_pos split: if_splits)
  have det: "0 < d * (d powr (2 * a + 1) / (2 * a + 1)) - (d powr (a + 1) / (a + 1)) * (d powr (a + 1) / (a + 1))"
    using assms d a1 a2
    by (auto simp: dW1_generator_def dW1_cov_pos MultivariateNormal_def split: if_splits)
  then have pos: "0 < (d powr (a + 1))\<^sup>2 * a\<^sup>2 / ((2 * a + 1) * (a + 1)\<^sup>2)"
    using cov_det [OF d a1 a2] by simp
  have a0: "a \<noteq> 0" using pos by auto
  have "0 \<le> (d powr (a + 1))\<^sup>2 * a\<^sup>2" by simp
  with pos have "0 < (2 * a + 1) * (a + 1)\<^sup>2"
    by (metis divide_nonneg_nonpos linorder_not_less)
  then have "0 < 2 * a + 1"
    by (simp add: zero_less_mult_iff)
  then show ?thesis using d a0 by simp
qed

subsection \<open>The convolution is the causal weighted sum\<close>

lemma arange_down_Inr: "0 \<le> n \<Longrightarrow> arange_down n = Inr (map (\<lambda>i. - 1 - int i) [0..<nat n])"
  by (simp add: arange_down_def)

lemma padded_nth:
  assumes "length gam = Suc m" "i \<le> m" "k < m" "0 < m"
  shows "(zeros (m - 1) @ rev gam @ zeros (m - 1)) ! (2 * m - 1 - i + k)
         = (if k \<le> i then gam ! (i - k) else 0)"
proof -
  have q: "2 * m - 1 - i + k = (m - 1) + (m - i + k)"
    using assms by simp
  have "(zeros (m - 1) @ rev gam @ zeros (m - 1)) ! (2 * m - 1 - i + k)
        = (rev gam @ zeros (m - 1)) ! (m - i + k)"
    unfolding q by (simp add: nth_append zeros_def)
  also have "\<dots> = (if k \<le> i then gam ! (i - k) else 0)"
  proof (cases "k \<le> i")
    case True
    then have lt: "m - i + k < length (rev gam)" using assms by simp
    have "(rev gam @ zeros (m - 1)) ! (m - i + k) = rev gam ! (m - i + k)"
      using lt by (simp add: nth_append)
    also have "\<dots> = gam ! (length gam - Suc (m - i + k))"
      using lt by (simp add: rev_nth)
    also have "length gam - Suc (m - i + k) = i - k"
      using True assms by simp
    finally show ?thesis using True by simp
  next
    case False
    then have "\<not> m - i + k < length (rev gam)" using assms by simp
    moreover have "m - i + k - length (rev gam) < m - 1" using False assms by simp
    ultimately show ?thesis using False by (simp add: nth_append zeros_def)
  qed
  finally show ?thesis .
qed

lemma conv_sum:
  fixes x gam :: "real list"
  assumes "i \<le> m" "gam ! 0 = 0"
  shows "sum_list (map (\<lambda>k. x ! k * (if k \<le> i then gam ! (i - k) else 0)) [0..<m])
         = (\<Sum>j<i. gam ! (i - j) * x ! j)"
proof -
  have "sum_list (map (\<lambda>k. x ! k * (if k \<le> i then gam ! (i - k) else 0)) [0..<m])
        = (\<Sum>k\<in>{0..<m}. x ! k * (if k \<le> i then gam ! (i - k) else 0))"
    by (simp add: interv_sum_list_conv_sum_set_nat)
  also have "\<dots> = (\<Sum>k\<in>{0..<m}. if k < i then gam ! (i - k) * x ! k else 0)"
    using assms(2) by (intro sum.cong) (auto simp: le_less)
  also have "\<dots> = (\<Sum>k\<in>{k \<in> {0..<m}. k < i}. gam ! (i - k) * x ! k)"
    by (rule sum.inter_filter [symmetric]) simp
  also have "{k \<in> {0..<m}. k < i} = {..<i}"
    using assms(1) by auto
  finally show ?thesis .
qed

lemma GXi_convolve_Inr:
  assumes "0 < m" "X \<noteq> []" "length gam = Suc m"
  shows "GXi_convolve gam X m =
         Inr (map (\<lambda>w. map (\<lambda>t. sum_list (map (\<lambda>k. w ! k * (zeros (m - 1) @ rev gam @ zeros (m - 1)) ! (t + k)) [0..<m]))
                          [0..<2 * m]) X)"
proof -
  have pad: "nat (int m - 1) = m - 1" by simp
  have out: "nat (int (length (rev gam)) + 2 * (int m - 1) - int m + 1) = 2 * m"
    using assms by simp
  have "\<not> int m - 1 < 0" using assms by simp
  moreover have "\<not> length X < 1" using assms by (cases X) auto
  moreover have "\<not> int (length (rev gam)) + 2 * (int m - 1) < int m" using assms by simp
  ultimately show ?thesis
    unfolding GXi_convolve_def conv1d_def Let_def by (simp only: if_False pad out)
qed

lemma Y2_Inr:
  assumes m: "0 < m" and X: "X \<noteq> []" and gam: "length gam = Suc m" and g0: "gam ! 0 = 0"
  shows "Y2 gam X m (int m + 1) =
         Inr (map (\<lambda>x. map (\<lambda>i. \<Sum>j<i. gam ! (i - j) * x ! j) [0..<Suc m]) X)"
proof -
  let ?pad = "zeros (m - 1) @ rev gam @ zeros (m - 1)"
  let ?row = "\<lambda>w. map (\<lambda>t. sum_list (map (\<lambda>k. w ! k * ?pad ! (t + k)) [0..<m])) [0..<2 * m]"
  let ?idx = "map (\<lambda>i. - 1 - int i) [0..<nat (int m + 1)]"
  have ad: "arange_down (int m + 1) = Inr ?idx"
    by (rule arange_down_Inr) simp
  have w: "nat (int (length gam) + 2 * (int m - 1) - int m + 1) = 2 * m"
    using m gam by simp
  have idx: "\<not> list_ex (\<lambda>j. j < - int (2 * m) \<or> int (2 * m) \<le> j) ?idx"
    using m by (auto simp: list_ex_iff)
  have sel: "map (\<lambda>i. ?row x ! nat (if - 1 - int i < 0 then int (2 * m) + (- 1 - int i) else - 1 - int i))
               [0..<nat (int m + 1)]
             = map (\<lambda>i. \<Sum>j<i. gam ! (i - j) * x ! j) [0..<Suc m]" for x
  proof -
    have "map (\<lambda>i. ?row x ! nat (if - 1 - int i < 0 then int (2 * m) + (- 1 - int i) else - 1 - int i))
               [0..<nat (int m + 1)]
          = map (\<lambda>i. ?row x ! (2 * m - 1 - i)) [0..<Suc m]"
    proof -
      have n: "nat (int m + 1) = Suc m" by simp
      have e: "nat (if - 1 - int i < 0 then int (2 * m) + (- 1 - int i) else - 1 - int i) = 2 * m - 1 - i" for i
        by simp
      show ?thesis
        unfolding n e ..
    qed
    also have "\<dots> = map (\<lambda>i. \<Sum>j<i. gam ! (i - j) * x ! j) [0..<Suc m]"
    proof (rule map_cong [OF refl])
      fix i assume "i \<in> set [0..<Suc m]"
      then have i: "i \<le> m" by auto
      then have lt: "2 * m - 1 - i < 2 * m" using m by simp
      have "?row x ! (2 * m - 1 - i) = sum_list (map (\<lambda>k. x ! k * ?pad ! (2 * m - 1 - i + k)) [0..<m])"
        using lt by simp
      also have "\<dots> = sum_list (map (\<lambda>k. x ! k * (if k \<le> i then gam ! (i - k) else 0)) [0..<m])"
      proof -
        have "map (\<lambda>k. x ! k * ?pad ! (2 * m - 1 - i + k)) [0..<m]
              = map (\<lambda>k. x ! k * (if k \<le> i then gam ! (i - k) else 0)) [0..<m]"
        proof (rule map_cong [OF refl])
          fix k assume "k \<in> set [0..<m]"
          then have "k < m" by simp
          from padded_nth [OF gam i this m]
          show "x ! k * ?pad ! (2 * m - 1 - i + k) = x ! k * (if k \<le> i then gam ! (i - k) else 0)"
            by (simp only:)
        qed
        then show ?thesis by (simp only:)
      qed
      also have "\<dots> = (\<Sum>j<i. gam ! (i - j) * x ! j)"
        by (rule conv_sum [OF i g0])
      finally show "?row x ! (2 * m - 1 - i) = (\<Sum>j<i. gam ! (i - j) * x ! j)" .
    qed
    finally show ?thesis .
  qed
  show ?thesis
    unfolding Y2_def GXi_convolve_Inr [OF m X gam] ad w index_cols_def
    by (simp only: idx if_False sum.case map_map comp_def sel)
qed

subsection \<open>Shapes of the draws, the Volterra process and the variance\<close>

lemma sample_Inr_D:
  assumes "sample L n m g = Inr (dW1, g')"
  shows "0 \<le> n \<and> 0 \<le> m \<and> length dW1 = nat n \<and> (\<forall>row\<in>set dW1. length row = nat m)
         \<and> g' = (\<lambda>i. g (nat n * nat m * 2 + i))"
  using assms
  by (cases L) (auto simp: sample_def standard_normal_def split: if_splits)

lemma sample_Inr:
  assumes "0 \<le> n" "0 \<le> m"
  shows "\<exists>dW1. sample L n m g = Inr (dW1, (\<lambda>i. g (nat n * nat m * 2 + i)))"
  using assms by (cases L) (simp add: sample_def standard_normal_def)

lemma randn_Inr_D:
  assumes "randn n m g = Inr (dW2, g')"
  shows "0 \<le> n \<and> 0 \<le> m \<and> length dW2 = nat n \<and> (\<forall>row\<in>set dW2. length row = nat m)
         \<and> g' = (\<lambda>i. g (nat n * nat m + i))"
  using assms
  by (auto simp: randn_def standard_normal_def split: if_splits)

lemma randn_Inr:
  assumes "0 \<le> n" "0 \<le> m"
  shows "\<exists>dW2. randn n m g = Inr (dW2, (\<lambda>i. g (nat n * nat m + i)))"
  using assms by (simp add: randn_def standard_normal_def)

lemma Xi_shape: "length (Xi dW1) = length dW1" "p < length dW1 \<Longrightarrow> Xi dW1 ! p = map fst (dW1 ! p)"
  by (simp_all add: Xi_def)

lemma Y1_shape: "length (Y1 dW1) = length dW1" "p < length dW1 \<Longrightarrow> Y1 dW1 ! p = 0 # map snd (dW1 ! p)"
  by (simp_all add: Y1_def)

lemma Y_nth:
  assumes "p < length y1" "p < length y2" "i < length (y1 ! p)" "i < length (y2 ! p)"
  shows "Y a y1 y2 ! p ! i = sqrt (2 * a + 1) * (y1 ! p ! i + y2 ! p ! i)"
  using assms by (simp add: Y_def)

lemma Y_length:
  "length (Y a y1 y2) = min (length y1) (length y2)"
  "p < length y1 \<Longrightarrow> p < length y2 \<Longrightarrow> length (Y a y1 y2 ! p) = min (length (y1 ! p)) (length (y2 ! p))"
  by (simp_all add: Y_def)

text \<open>The Volterra process for at least two steps and one path.\<close>

lemma Y_of_draws_Inr:
  assumes n: "2 \<le> n_steps P" and a: "alpha P \<noteq> 0" and rows: "dW1 \<noteq> []"
    and shape: "\<forall>row\<in>set dW1. length row = nat (n_steps P - 1)"
  shows "\<exists>gam y2 y. gamma (alpha P) (n_steps P) = Inr gam
           \<and> Y2 gam (Xi dW1) (nat (n_steps P - 1)) (n_steps P) = Inr y2
           \<and> Y_of_draws P dW1 = Inr y
           \<and> length y2 = length dW1 \<and> length y = length dW1
           \<and> (\<forall>p<length dW1. length (y2 ! p) = nat (n_steps P) \<and> length (y ! p) = nat (n_steps P)
                \<and> (\<forall>i<nat (n_steps P).
                      y2 ! p ! i = Y2_direct gam (Xi dW1 ! p) i
                    \<and> y ! p ! i = sqrt (2 * alpha P + 1) * (Y1 dW1 ! p ! i + y2 ! p ! i)))"
proof -
  define m where "m = nat (n_steps P - 1)"
  have m: "0 < m" and nm: "n_steps P = int m + 1" and nn: "nat (n_steps P) = Suc m"
    using n by (simp_all add: m_def)
  obtain gam where gam: "gamma (alpha P) (n_steps P) = Inr gam"
    using gamma_Inr [OF a n] by blast
  have len: "length gam = Suc m"
    using length_gamma [OF gam] n nn by simp
  have g0: "gam ! 0 = 0"
    using gamma_head [OF gam] by simp
  have X: "Xi dW1 \<noteq> []"
    using rows by (simp add: Xi_def)
  let ?y2 = "map (\<lambda>x. map (\<lambda>i. \<Sum>j<i. gam ! (i - j) * x ! j) [0..<Suc m]) (Xi dW1)"
  have y2: "Y2 gam (Xi dW1) m (n_steps P) = Inr ?y2"
    unfolding nm by (rule Y2_Inr [OF m X len g0])
  let ?y = "Y (alpha P) (Y1 dW1) ?y2"
  have y: "Y_of_draws P dW1 = Inr ?y"
    using gam y2 by (simp add: Y_of_draws_def m_def)
  have l2: "length ?y2 = length dW1"
    by (simp add: Xi_def)
  have ly: "length ?y = length dW1"
    by (simp add: Y_length Y1_shape Xi_def)
  have pt: "length (?y2 ! p) = Suc m \<and> length (?y ! p) = Suc m
           \<and> (\<forall>i<Suc m. ?y2 ! p ! i = Y2_direct gam (Xi dW1 ! p) i
                \<and> ?y ! p ! i = sqrt (2 * alpha P + 1) * (Y1 dW1 ! p ! i + ?y2 ! p ! i))"
    if p: "p < length dW1" for p
  proof -
    have row: "length (dW1 ! p) = m"
      using shape p by (simp add: m_def)
    have pX: "p < length (Xi dW1)" using p by (simp add: Xi_def)
    have a1: "length (?y2 ! p) = Suc m"
      using pX by (simp del: upt_Suc)
    have b1: "length (Y1 dW1 ! p) = Suc m"
      using p row by (simp add: Y1_shape)
    have a2: "length (?y ! p) = Suc m"
      using p pX a1 b1 by (simp add: Y_length Y1_shape del: upt_Suc)
    have a3: "?y2 ! p ! i = Y2_direct gam (Xi dW1 ! p) i" if "i < Suc m" for i
      using pX that by (simp add: Y2_direct_def del: upt_Suc)
    have a4: "?y ! p ! i = sqrt (2 * alpha P + 1) * (Y1 dW1 ! p ! i + ?y2 ! p ! i)" if "i < Suc m" for i
      by (rule Y_nth) (use p pX that a1 b1 in \<open>simp_all add: Y1_shape del: upt_Suc\<close>)
    show ?thesis using a1 a2 a3 a4 by blast
  qed
  show ?thesis
    using gam y2 y l2 ly pt unfolding m_def [symmetric] nn by blast
qed

lemma variance_nth:
  assumes "p < length y" "i < length (y ! p)" "i < length ts"
  shows "variance v0 e a d ts y ! p ! i
         = v0 * exp (e * (y ! p ! i) - 0.5 * (e * e) * ((ts ! i * d) powr (2 * a + 1)))"
  using assms by (simp add: variance_def)

lemma steps_nth:
  "length (map real_of_int [0..n - 1]) = nat n"
  "i < nat n \<Longrightarrow> map real_of_int [0..n - 1] ! i = real i"
  by simp_all

lemma variance_steps_nth:
  assumes "p < length y" "i < length (y ! p)" "int i < n"
  shows "variance v0 e a d (map of_int [0..n - 1]) y ! p ! i
         = v0 * exp (e * (y ! p ! i) - 0.5 * (e * e) * ((real i * d) powr (2 * a + 1)))"
proof -
  have i: "i < length (map real_of_int [0..n - 1])" "map real_of_int [0..n - 1] ! i = real i"
    using assms(3) by simp_all
  show ?thesis
    using variance_nth [OF assms(1,2) i(1)] by (simp only: i(2))
qed

lemma variance_length:
  "length (variance v0 e a d ts y) = length y"
  "p < length y \<Longrightarrow> length (variance v0 e a d ts y ! p) = min (length (y ! p)) (length ts)"
  by (simp_all add: variance_def)

subsection \<open>When the call returns\<close>

lemma GXi_convolve_Inr_D: "GXi_convolve gam X m = Inr G \<Longrightarrow> 0 < m \<and> X \<noteq> []"
  by (auto simp: GXi_convolve_def conv1d_def split: if_splits)

lemma Y2_Inr_D: "Y2 gam X m n = Inr y2 \<Longrightarrow> 0 < m \<and> X \<noteq> []"
  by (auto simp: Y2_def split: sum.splits dest: GXi_convolve_Inr_D)

lemma Y_of_draws_Inr_D:
  "Y_of_draws P dW1 = Inr y \<Longrightarrow> 2 \<le> n_steps P \<and> dW1 \<noteq> [] \<and> alpha P \<noteq> 0"
  by (auto simp: Y_of_draws_def Xi_def split: sum.splits dest!: Y2_Inr_D gamma_Inr_D)

lemma paths_Inr_D:
  "paths P dW1 dW2 = Inr out \<Longrightarrow>
   \<exists>y. Y_of_draws P dW1 = Inr y \<and>
     out = (prices (fst (init_state_of P))
              (log_return (increments (dt P)
                 (variance (snd (init_state_of P)) (eta P) (alpha P) (dt P) (map of_int [0..n_steps P - 1]) y)
                 (dB (rho P) (Xi dW1) (map (map (\<lambda>z. z * sqrt (dt P))) dW2)))),
            variance (snd (init_state_of P)) (eta P) (alpha P) (dt P) (map of_int [0..n_steps P - 1]) y)"
  by (auto simp: paths_def Let_def arange_def split: sum.splits if_splits)

lemma generate_rough_bergomi_Inr_D:
  assumes "generate_rough_bergomi P g = (Inr out, g')"
  shows "\<exists>L dW1 g1 dW2. dW1_generator (dt P) (alpha P) = Inr L
           \<and> sample L (n_paths P) (n_steps P - 1) g = Inr (dW1, g1)
           \<and> randn (n_paths P) (n_steps P - 1) g1 = Inr (dW2, g')
           \<and> paths P dW1 dW2 = Inr out"
  using assms
  by (auto simp: generate_rough_bergomi_def split: sum.splits prod.splits)

text \<open>The call returns arrays exactly in these cases.\<close>

lemma generate_rough_bergomi_Inr_iff:
  "(\<exists>out g'. generate_rough_bergomi P g = (Inr out, g')) \<longleftrightarrow>
     2 \<le> n_steps P \<and> 1 \<le> n_paths P \<and> 0 < dt P \<and> - 1 / 2 < alpha P \<and> alpha P \<noteq> 0"
proof
  assume "\<exists>out g'. generate_rough_bergomi P g = (Inr out, g')"
  then obtain out g' where r: "generate_rough_bergomi P g = (Inr out, g')" by blast
  from generate_rough_bergomi_Inr_D [OF r] obtain L dW1 g1 dW2 where
    L: "dW1_generator (dt P) (alpha P) = Inr L" and
    s: "sample L (n_paths P) (n_steps P - 1) g = Inr (dW1, g1)" and
    pth: "paths P dW1 dW2 = Inr out" by blast
  from paths_Inr_D [OF pth] obtain y where "Y_of_draws P dW1 = Inr y" by blast
  from Y_of_draws_Inr_D [OF this] have "2 \<le> n_steps P" "dW1 \<noteq> []" by simp_all
  moreover from sample_Inr_D [OF s] have "length dW1 = nat (n_paths P)" by simp
  ultimately show "2 \<le> n_steps P \<and> 1 \<le> n_paths P \<and> 0 < dt P \<and> - 1 / 2 < alpha P \<and> alpha P \<noteq> 0"
    using dW1_generator_Inr_D [OF L] by (cases "n_paths P \<le> 0") auto
next
  assume h: "2 \<le> n_steps P \<and> 1 \<le> n_paths P \<and> 0 < dt P \<and> - 1 / 2 < alpha P \<and> alpha P \<noteq> 0"
  then obtain L where L: "dW1_generator (dt P) (alpha P) = Inr L"
    using dW1_generator_Inr by blast
  from h obtain dW1 g1 where s: "sample L (n_paths P) (n_steps P - 1) g = Inr (dW1, g1)"
    using sample_Inr [of "n_paths P" "n_steps P - 1" L g] by auto
  from h obtain dW2 g2 where r: "randn (n_paths P) (n_steps P - 1) g1 = Inr (dW2, g2)"
    using randn_Inr [of "n_paths P" "n_steps P - 1" g1] by auto
  from sample_Inr_D [OF s] h have "dW1 \<noteq> []" "\<forall>row\<in>set dW1. length row = nat (n_steps P - 1)"
    by auto
  with h obtain y where "Y_of_draws P dW1 = Inr y"
    using Y_of_draws_Inr [of P dW1] by blast
  moreover have "arange 0 (n_steps P) = Inr (map of_int [0..n_steps P - 1])"
    using h by (intro arange_Inr) simp
  ultimately obtain out where "paths P dW1 dW2 = Inr out"
    by (simp add: paths_def Let_def)
  then show "\<exists>out g'. generate_rough_bergomi P g = (Inr out, g')"
    using L s r by (simp add: generate_rough_bergomi_def)
qed

subsection \<open>The price path\<close>

lemma length_cumsum_from: "length (cumsum_from acc xs) = length xs"
  by (induction xs arbitrary: acc) simp_all

lemma length_cumsum: "length (cumsum xs) = length xs"
  by (simp add: cumsum_def length_cumsum_from)

lemma cumsum_from_Some:
  "acc \<noteq> None \<Longrightarrow> None \<notin> set xs \<Longrightarrow> None \<notin> set (cumsum_from acc xs)"
proof (induction xs arbitrary: acc)
  case Nil
  then show ?case by simp
next
  case (Cons x xs)
  from Cons.prems(1) obtain a where a: "acc = Some a" by blast
  from Cons.prems(2) have "x \<noteq> None" by (metis list.set_intros(1))
  then obtain b where b: "x = Some b" by blast
  note ab = a b
  have "None \<notin> set (cumsum_from (Some (a + b)) xs)"
    using Cons.prems by (intro Cons.IH) auto
  then show ?case by (simp add: ab nan_lift2_def)
qed

lemma dB_length:
  "length (dB r X dW2) = min (length X) (length dW2)"
  "p < length X \<Longrightarrow> p < length dW2 \<Longrightarrow> length (dB r X dW2 ! p) = min (length (X ! p)) (length (dW2 ! p))"
  by (simp_all add: dB_def)

lemma dB_nth:
  assumes "p < length X" "p < length dW2" "i < length (X ! p)" "i < length (dW2 ! p)"
  shows "dB r X dW2 ! p ! i
         = nan_lift2 (+) (Some (r * X ! p ! i)) (nan_lift2 (*) (torch_sqrt (1 - r * r)) (Some (dW2 ! p ! i)))"
  using assms by (simp add: dB_def)

lemma increments_length:
  "length (increments d var db) = min (length var) (length db)"
  "p < length var \<Longrightarrow> p < length db \<Longrightarrow>
   length (increments d var db ! p) = min (length (var ! p) - 1) (length (db ! p))"
  by (simp_all add: increments_def)

lemma increments_nth:
  assumes "p < length var" "p < length db" "Suc i < length (var ! p)" "i < length (db ! p)"
  shows "increments d var db ! p ! i
         = nan_lift2 (-) (nan_lift2 (*) (torch_sqrt (var ! p ! i)) (db ! p ! i)) (Some (0.5 * var ! p ! i * d))"
  using assms by (simp add: increments_def nth_butlast)

lemma log_return_length:
  "length (log_return inc) = length inc"
  "p < length inc \<Longrightarrow> length (log_return inc ! p) = Suc (length (inc ! p))"
  by (simp_all add: log_return_def length_cumsum)

lemma prices_length:
  "length (prices s0 lr) = length lr"
  "p < length lr \<Longrightarrow> length (prices s0 lr ! p) = length (lr ! p)"
  by (simp_all add: prices_def)

lemma prices_first:
  "p < length inc \<Longrightarrow> prices s0 (log_return inc) ! p ! 0 = Some s0"
  by (simp add: prices_def log_return_def)

lemma prices_pos:
  assumes "p < length inc" "None \<notin> set (inc ! p)" "0 < s0" "i < Suc (length (inc ! p))"
  shows "\<exists>x. prices s0 (log_return inc) ! p ! i = Some x \<and> 0 < x"
proof -
  let ?row = "Some 0 # cumsum (inc ! p)"
  have "None \<notin> set ?row"
    using assms(2) by (simp add: cumsum_def cumsum_from_Some)
  moreover have "i < length ?row" using assms(4) by (simp add: length_cumsum)
  ultimately obtain l where l: "?row ! i = Some l"
    by (metis nth_mem not_None_eq)
  have "prices s0 (log_return inc) ! p = map (map_option (\<lambda>l. s0 * exp l)) ?row"
    using assms(1) by (simp add: prices_def log_return_def)
  moreover have "map (map_option (\<lambda>l. s0 * exp l)) ?row ! i = map_option (\<lambda>l. s0 * exp l) (?row ! i)"
    using \<open>i < length ?row\<close> by (rule nth_map)
  ultimately have "prices s0 (log_return inc) ! p ! i = map_option (\<lambda>l. s0 * exp l) (?row ! i)"
    by (simp only:)
  then show ?thesis using l assms(3) by simp
qed

subsection \<open>Structure and shape of the result\<close>

lemma result_structure:
  assumes r: "generate_rough_bergomi P g = (Inr (spot, var), g')"
  shows "\<exists>L dW1 dW2 g1 y.
      dW1_generator (dt P) (alpha P) = Inr L
    \<and> sample L (n_paths P) (n_steps P - 1) g = Inr (dW1, g1)
    \<and> randn (n_paths P) (n_steps P - 1) g1 = Inr (dW2, g')
    \<and> Y_of_draws P dW1 = Inr y
    \<and> var = variance (snd (init_state_of P)) (eta P) (alpha P) (dt P) (map of_int [0..n_steps P - 1]) y
    \<and> spot = prices (fst (init_state_of P))
               (log_return (increments (dt P) var
                  (dB (rho P) (Xi dW1) (map (map (\<lambda>z. z * sqrt (dt P))) dW2))))
    \<and> 2 \<le> n_steps P \<and> 1 \<le> n_paths P
    \<and> length dW1 = nat (n_paths P) \<and> (\<forall>row\<in>set dW1. length row = nat (n_steps P - 1))
    \<and> length dW2 = nat (n_paths P) \<and> (\<forall>row\<in>set dW2. length row = nat (n_steps P - 1))"
proof -
  from generate_rough_bergomi_Inr_D [OF r] obtain L dW1 g1 dW2 where
    L: "dW1_generator (dt P) (alpha P) = Inr L" and
    s: "sample L (n_paths P) (n_steps P - 1) g = Inr (dW1, g1)" and
    z: "randn (n_paths P) (n_steps P - 1) g1 = Inr (dW2, g')" and
    pth: "paths P dW1 dW2 = Inr (spot, var)" by blast
  from paths_Inr_D [OF pth] obtain y where y: "Y_of_draws P dW1 = Inr y"
    and out: "var = variance (snd (init_state_of P)) (eta P) (alpha P) (dt P) (map of_int [0..n_steps P - 1]) y"
       "spot = prices (fst (init_state_of P))
               (log_return (increments (dt P) var
                  (dB (rho P) (Xi dW1) (map (map (\<lambda>z. z * sqrt (dt P))) dW2))))"
    by auto
  have ret: "2 \<le> n_steps P \<and> 1 \<le> n_paths P"
    using generate_rough_bergomi_Inr_iff [of P g] r by blast
  show ?thesis
    using L s z y out ret sample_Inr_D [OF s] randn_Inr_D [OF z] by blast
qed

lemma Y_of_draws_shape:
  assumes y: "Y_of_draws P dW1 = Inr y"
    and shape: "\<forall>row\<in>set dW1. length row = nat (n_steps P - 1)"
  shows "length y = length dW1"
    and "p < length dW1 \<Longrightarrow> length (y ! p) = nat (n_steps P)"
    and "p < length dW1 \<Longrightarrow> y ! p ! 0 = 0"
proof -
  from Y_of_draws_Inr_D [OF y] have n: "2 \<le> n_steps P" and a: "alpha P \<noteq> 0" and rows: "dW1 \<noteq> []"
    by simp_all
  from Y_of_draws_Inr [OF n a rows shape] y obtain gam y2 where
    ly: "length y = length dW1" and
    pt: "\<forall>p<length dW1. length (y2 ! p) = nat (n_steps P) \<and> length (y ! p) = nat (n_steps P)
          \<and> (\<forall>i<nat (n_steps P). y2 ! p ! i = Y2_direct gam (Xi dW1 ! p) i
               \<and> y ! p ! i = sqrt (2 * alpha P + 1) * (Y1 dW1 ! p ! i + y2 ! p ! i))"
    by auto
  show "length y = length dW1" by (rule ly)
  show "length (y ! p) = nat (n_steps P)" if "p < length dW1"
    using pt that by blast
  show "y ! p ! 0 = 0" if p: "p < length dW1"
  proof -
    have "0 < nat (n_steps P)" using n by simp
    with pt p have "y ! p ! 0 = sqrt (2 * alpha P + 1) * (Y1 dW1 ! p ! 0 + Y2_direct gam (Xi dW1 ! p) 0)"
      by metis
    then show ?thesis
      using p by (simp add: Y1_shape Y2_direct_def)
  qed
qed

text \<open>Shapes and the first column of what the call returns.\<close>

lemma result_shape:
  assumes r: "generate_rough_bergomi P g = (Inr (spot, var), g')"
  shows "length spot = nat (n_paths P) \<and> length var = nat (n_paths P)
       \<and> (\<forall>p<nat (n_paths P). length (spot ! p) = nat (n_steps P) \<and> length (var ! p) = nat (n_steps P)
            \<and> spot ! p ! 0 = Some (fst (init_state_of P)) \<and> var ! p ! 0 = snd (init_state_of P))"
proof -
  from result_structure [OF r] obtain L dW1 dW2 g1 y where
    y: "Y_of_draws P dW1 = Inr y" and
    var: "var = variance (snd (init_state_of P)) (eta P) (alpha P) (dt P) (map of_int [0..n_steps P - 1]) y" and
    spot: "spot = prices (fst (init_state_of P))
               (log_return (increments (dt P) var
                  (dB (rho P) (Xi dW1) (map (map (\<lambda>z. z * sqrt (dt P))) dW2))))" and
    n: "2 \<le> n_steps P" and
    l1: "length dW1 = nat (n_paths P)" and s1: "\<forall>row\<in>set dW1. length row = nat (n_steps P - 1)" and
    l2: "length dW2 = nat (n_paths P)" and s2: "\<forall>row\<in>set dW2. length row = nat (n_steps P - 1)"
    by blast
  let ?N = "nat (n_paths P)" and ?db = "dB (rho P) (Xi dW1) (map (map (\<lambda>z. z * sqrt (dt P))) dW2)"
  let ?inc = "increments (dt P) var ?db"
  note ys = Y_of_draws_shape [OF y s1]
  have lv: "length var = ?N"
    by (simp add: var variance_length ys l1)
  have ldb: "length ?db = ?N"
    by (simp add: dB_length Xi_shape l1 l2)
  have linc: "length ?inc = ?N"
    by (simp add: increments_length lv ldb)
  have ls: "length spot = ?N"
    by (simp add: spot prices_length log_return_length linc)
  have pt: "length (spot ! p) = nat (n_steps P) \<and> length (var ! p) = nat (n_steps P)
            \<and> spot ! p ! 0 = Some (fst (init_state_of P)) \<and> var ! p ! 0 = snd (init_state_of P)"
    if p: "p < ?N" for p
  proof -
    have p1: "p < length dW1" and p2: "p < length dW2" and py: "p < length y"
      using p l1 l2 ys(1) by simp_all
    have r1: "length (dW1 ! p) = nat (n_steps P - 1)" and r2: "length (dW2 ! p) = nat (n_steps P - 1)"
      using s1 s2 p1 p2 by simp_all
    have lvp: "length (var ! p) = nat (n_steps P)"
      using py ys(2) [OF p1] by (simp add: var variance_length)
    have ldbp: "length (?db ! p) = nat (n_steps P - 1)"
      using p1 p2 r1 r2 by (simp add: dB_length Xi_shape)
    have lincp: "length (?inc ! p) = nat (n_steps P - 1)"
      using p lv ldb lvp ldbp n by (simp add: increments_length)
    have lsp: "length (spot ! p) = nat (n_steps P)"
      using p linc lincp n by (simp add: spot prices_length log_return_length)
    have s0: "spot ! p ! 0 = Some (fst (init_state_of P))"
      unfolding spot using p linc by (simp add: prices_first)
    have "var ! p ! 0 = snd (init_state_of P) * exp (eta P * (y ! p ! 0)
               - 0.5 * (eta P * eta P) * ((real 0 * dt P) powr (2 * alpha P + 1)))"
      unfolding var by (rule variance_steps_nth) (use py ys(2) [OF p1] n in simp_all)
    then have v0: "var ! p ! 0 = snd (init_state_of P)"
      using ys(3) [OF p1] by simp
    show ?thesis using lsp lvp s0 v0 by blast
  qed
  show ?thesis using ls lv pt by blast
qed

lemma valid_returns:
  assumes "valid_params P" "2 \<le> n_steps P"
  shows "\<exists>spot var g'. generate_rough_bergomi P g = (Inr (spot, var), g')"
proof -
  have "\<exists>out g'. generate_rough_bergomi P g = (Inr out, g')"
    unfolding generate_rough_bergomi_Inr_iff using assms by (auto simp: valid_params_def)
  then show ?thesis by (metis surj_pair)
qed


subsection \<open>Where the call raises\<close>

lemma paths_Inl:
  "Y_of_draws P dW1 = Inl e \<Longrightarrow> paths P dW1 dW2 = Inl e"
  by (simp add: paths_def)

lemma Y_of_draws_no_step:
  assumes "n_steps P = 1"
  shows "Y_of_draws P dW1 = Inl RuntimeError"
  using assms by (simp add: Y_of_draws_def gamma_raises)

lemma GXi_convolve_no_step: "GXi_convolve gam X 0 = Inl RuntimeError"
  by (simp add: GXi_convolve_def conv1d_def)

lemma Y_of_draws_no_path:
  "\<exists>e. Y_of_draws P [] = Inl e"
proof (cases "Y_of_draws P []")
  case (Inl e)
  then show ?thesis by blast
next
  case (Inr y)
  from Y_of_draws_Inr_D [OF this] show ?thesis by simp
qed

text \<open>With a single step the call raises in the convolution, after drawing nothing.\<close>

lemma single_step:
  assumes n: "n_steps P = 1" and N: "0 \<le> n_paths P" and d: "0 < dt P"
    and a: "- 1 / 2 < alpha P" "alpha P \<noteq> 0"
  shows "generate_rough_bergomi P g = (Inl RuntimeError, g)"
proof -
  obtain L where L: "dW1_generator (dt P) (alpha P) = Inr L"
    using dW1_generator_Inr [OF d a] by blast
  obtain dW1 where s: "sample L (n_paths P) (n_steps P - 1) g = Inr (dW1, g)"
    using sample_Inr [of "n_paths P" "n_steps P - 1" L g] N n by auto
  obtain dW2 where z: "randn (n_paths P) (n_steps P - 1) g = Inr (dW2, g)"
    using randn_Inr [of "n_paths P" "n_steps P - 1" g] N n by auto
  have "paths P dW1 dW2 = Inl RuntimeError"
    by (rule paths_Inl) (rule Y_of_draws_no_step [OF n])
  then show ?thesis
    using L s z by (simp add: generate_rough_bergomi_def)
qed

lemma returns_not_isl:
  assumes "2 \<le> n_steps P" "1 \<le> n_paths P" "0 < dt P" "- 1 / 2 < alpha P" "alpha P \<noteq> 0"
  shows "\<not> isl (fst (generate_rough_bergomi P g))"
proof -
  from assms obtain out g' where "generate_rough_bergomi P g = (Inr out, g')"
    using generate_rough_bergomi_Inr_iff [of P g] by blast
  then show ?thesis by simp
qed

subsection \<open>Entries of the result\<close>

lemma torch_sqrt_Some: "0 \<le> x \<Longrightarrow> torch_sqrt x = Some (sqrt x)"
  by (simp add: torch_sqrt_def)


lemma result_positive:
  assumes r: "generate_rough_bergomi P g = (Inr (spot, var), g')"
    and S0: "0 < fst (init_state_of P)" and V0: "0 < snd (init_state_of P)"
    and rho: "- 1 \<le> rho P" "rho P \<le> 1"
    and p: "p < nat (n_paths P)" and i: "i < nat (n_steps P)"
  shows "(\<exists>x. spot ! p ! i = Some x \<and> 0 < x) \<and> 0 < var ! p ! i"
proof -
  from result_structure [OF r] obtain L dW1 dW2 g1 y where
    y: "Y_of_draws P dW1 = Inr y" and
    var: "var = variance (snd (init_state_of P)) (eta P) (alpha P) (dt P) (map of_int [0..n_steps P - 1]) y" and
    spot: "spot = prices (fst (init_state_of P))
               (log_return (increments (dt P) var
                  (dB (rho P) (Xi dW1) (map (map (\<lambda>z. z * sqrt (dt P))) dW2))))" and
    n: "2 \<le> n_steps P" and
    l1: "length dW1 = nat (n_paths P)" and s1: "\<forall>row\<in>set dW1. length row = nat (n_steps P - 1)" and
    l2: "length dW2 = nat (n_paths P)" and s2: "\<forall>row\<in>set dW2. length row = nat (n_steps P - 1)"
    by blast
  let ?dW2 = "map (map (\<lambda>z. z * sqrt (dt P))) dW2"
  let ?db = "dB (rho P) (Xi dW1) ?dW2"
  let ?inc = "increments (dt P) var ?db"
  note ys = Y_of_draws_shape [OF y s1]
  note sh = result_shape [OF r]
  have p1: "p < length dW1" and p2: "p < length dW2" and py: "p < length y" and pv: "p < length var"
    using p l1 l2 ys(1) sh by simp_all
  have r1: "length (dW1 ! p) = nat (n_steps P - 1)" and r2: "length (dW2 ! p) = nat (n_steps P - 1)"
    using s1 s2 p1 p2 by simp_all
  have lvp: "length (var ! p) = nat (n_steps P)"
    using sh p by blast
  have vpos: "0 < var ! p ! k" if "k < nat (n_steps P)" for k
  proof -
    have "p < length y" "k < length (y ! p)" "int k < n_steps P"
      using py that ys(2) [OF p1] by simp_all
    from variance_steps_nth [OF this] show ?thesis
      using V0 by (simp add: var)
  qed
  have rr: "0 \<le> 1 - rho P * rho P"
  proof -
    have "\<bar>rho P\<bar> \<le> 1" using rho by simp
    then have "(rho P)\<^sup>2 \<le> 1" by (simp add: abs_square_le_1)
    then show ?thesis by (simp add: power2_eq_square)
  qed
  have ldb: "length ?db = nat (n_paths P)"
    by (simp add: dB_length Xi_shape l1 l2)
  have ldbp: "length (?db ! p) = nat (n_steps P - 1)"
    using p1 p2 r1 r2 by (simp add: dB_length Xi_shape)
  have dbS: "\<exists>b. ?db ! p ! k = Some b" if "k < nat (n_steps P - 1)" for k
  proof -
    have "?db ! p ! k = nan_lift2 (+) (Some (rho P * Xi dW1 ! p ! k))
            (nan_lift2 (*) (torch_sqrt (1 - rho P * rho P)) (Some (?dW2 ! p ! k)))"
      by (rule dB_nth) (use p1 p2 r1 r2 that in \<open>simp_all add: Xi_shape\<close>)
    then show ?thesis
      by (simp add: torch_sqrt_Some [OF rr] nan_lift2_def)
  qed
  have linc: "length ?inc = nat (n_paths P)"
    using sh ldb by (simp add: increments_length)
  have lincp: "length (?inc ! p) = nat (n_steps P - 1)"
    using pv p ldb lvp ldbp n by (simp add: increments_length)
  have incS: "?inc ! p ! k \<noteq> None" if k: "k < nat (n_steps P - 1)" for k
  proof -
    have "?inc ! p ! k = nan_lift2 (-) (nan_lift2 (*) (torch_sqrt (var ! p ! k)) (?db ! p ! k))
             (Some (0.5 * var ! p ! k * dt P))"
      by (rule increments_nth) (use pv p ldb lvp ldbp k n in simp_all)
    moreover obtain b where "?db ! p ! k = Some b" using dbS [OF k] by blast
    moreover have "0 \<le> var ! p ! k"
    proof -
      have "k < nat (n_steps P)" using k by simp
      from vpos [OF this] show ?thesis by simp
    qed
    ultimately show ?thesis
      by (simp add: torch_sqrt_Some nan_lift2_def)
  qed
  have none: "None \<notin> set (?inc ! p)"
  proof
    assume "None \<in> set (?inc ! p)"
    then obtain k where "k < length (?inc ! p)" "?inc ! p ! k = None"
      by (metis in_set_conv_nth)
    then show False using incS [of k] lincp by simp
  qed
  have "\<exists>x. prices (fst (init_state_of P)) (log_return ?inc) ! p ! i = Some x \<and> 0 < x"
    by (rule prices_pos [OF _ none S0]) (use p linc lincp i n in simp_all)
  then show ?thesis
    using vpos [OF i] by (simp add: spot)
qed

subsection \<open>An entry of the Volterra process reads only earlier draws\<close>

lemma Y1_row_take:
  assumes "take i r = take i r'" "i \<le> length r" "i \<le> length r'"
  shows "(0 # map snd r) ! i = (0 # map snd r') ! i"
proof (cases i)
  case 0
  then show ?thesis by simp
next
  case (Suc k)
  then have k: "k < length r" "k < length r'" "k < i" using assms by simp_all
  have "r ! k = take i r ! k" using k by simp
  also have "\<dots> = take i r' ! k" by (simp only: assms(1))
  also have "\<dots> = r' ! k" using k by simp
  finally show ?thesis using Suc k by simp
qed

lemma Y2_direct_take:
  assumes "take i r = take i r'" "i \<le> length r" "i \<le> length r'"
  shows "Y2_direct gam (map fst r) i = Y2_direct gam (map fst r') i"
  unfolding Y2_direct_def
proof (rule sum.cong [OF refl])
  fix j assume "j \<in> {..<i}"
  then have j: "j < i" "j < length r" "j < length r'" using assms by simp_all
  have "r ! j = take i r ! j" using j by simp
  also have "\<dots> = take i r' ! j" by (simp only: assms(1))
  also have "\<dots> = r' ! j" using j by simp
  finally show "gam ! (i - j) * map fst r ! j = gam ! (i - j) * map fst r' ! j"
    using j by simp
qed

subsection \<open>Scaling the initial spot\<close>

lemma prices_scale:
  "prices (c * s0) lr = map (map (map_option ((*) c))) (prices s0 lr)"
  by (simp add: prices_def option.map_comp comp_def mult.assoc)

lemma Y_of_draws_init_state:
  "Y_of_draws (P\<lparr>init_state := s\<rparr>) dW1 = Y_of_draws P dW1"
  by (simp add: Y_of_draws_def cong: sum.case_cong)

lemma paths_scale:
  "paths (P\<lparr>init_state := Some (c * S0, V0)\<rparr>) dW1 dW2
   = (case paths (P\<lparr>init_state := Some (S0, V0)\<rparr>) dW1 dW2 of
        Inl e \<Rightarrow> Inl e
      | Inr (spot, var) \<Rightarrow> Inr (map (map (map_option ((*) c))) spot, var))"
  by (simp add: paths_def Y_of_draws_init_state init_state_of_def cast_state_def Let_def prices_scale
           split: sum.splits)

text \<open>
  In exact arithmetic the initial spot is a factor of every spot entry; nothing else reads
  it.
\<close>

lemma generate_rough_bergomi_scale:
  "generate_rough_bergomi (P\<lparr>init_state := Some (c * S0, V0)\<rparr>) g
   = (case generate_rough_bergomi (P\<lparr>init_state := Some (S0, V0)\<rparr>) g of
        (Inl e, g') \<Rightarrow> (Inl e, g')
      | (Inr (spot, var), g') \<Rightarrow> (Inr (map (map (map_option ((*) c))) spot, var), g'))"
  by (simp add: generate_rough_bergomi_def paths_scale split: sum.splits prod.splits)

subsection \<open>The draws as a function of the variates\<close>

lemma flat_index:
  fixes p s N m :: nat
  assumes "p < N" "s < m"
  shows "p * m + s < N * m"
proof -
  have "p * m + s < p * m + m" using assms(2) by simp
  also have "\<dots> = Suc p * m" by simp
  also have "\<dots> \<le> N * m" using assms(1) by (intro mult_le_mono1) simp
  finally show ?thesis .
qed

lemma sample_eq:
  assumes "0 \<le> n" "0 \<le> m"
  shows "sample (l00, l10, l11) n m g =
         Inr (map (\<lambda>p. map (\<lambda>s.
                     (l00 * g ((p * nat m + s) * 2),
                      l10 * g ((p * nat m + s) * 2) + l11 * g ((p * nat m + s) * 2 + 1)))
                   [0..<nat m]) [0..<nat n],
              (\<lambda>i. g (nat n * nat m * 2 + i)))"
proof -
  have "(p * nat m + s) * 2 + 1 < nat n * nat m * 2" if "p < nat n" "s < nat m" for p s
    using flat_index [OF that] by simp
  then have "map (\<lambda>p. map (\<lambda>s.
                     (l00 * map g [0..<nat n * nat m * 2] ! ((p * nat m + s) * 2),
                      l10 * map g [0..<nat n * nat m * 2] ! ((p * nat m + s) * 2)
                        + l11 * map g [0..<nat n * nat m * 2] ! ((p * nat m + s) * 2 + 1)))
                   [0..<nat m]) [0..<nat n]
           = map (\<lambda>p. map (\<lambda>s.
                     (l00 * g ((p * nat m + s) * 2),
                      l10 * g ((p * nat m + s) * 2) + l11 * g ((p * nat m + s) * 2 + 1)))
                   [0..<nat m]) [0..<nat n]"
    by (intro map_cong refl) (simp add: less_imp_diff_less Suc_lessD)
  then show ?thesis
    using assms by (simp add: sample_def standard_normal_def)
qed

lemma randn_eq:
  assumes "0 \<le> n" "0 \<le> m"
  shows "randn n m g =
         Inr (map (\<lambda>p. map (\<lambda>s. g (p * nat m + s)) [0..<nat m]) [0..<nat n],
              (\<lambda>i. g (nat n * nat m + i)))"
proof -
  have "map (\<lambda>p. map (\<lambda>s. map g [0..<nat n * nat m] ! (p * nat m + s)) [0..<nat m]) [0..<nat n]
        = map (\<lambda>p. map (\<lambda>s. g (p * nat m + s)) [0..<nat m]) [0..<nat n]"
    by (intro map_cong refl) (simp add: flat_index)
  then show ?thesis
    using assms by (simp add: randn_def standard_normal_def)
qed

lemma sample_agree:
  assumes "\<forall>i<nat n * nat m * 2. g' i = g i"
  shows "map_sum id fst (sample L n m g') = map_sum id fst (sample L n m g)"
proof (cases "n < 0 \<or> m < 0")
  case True
  then show ?thesis by (simp add: sample_def)
next
  case False
  obtain l00 l10 l11 where L: "L = (l00, l10, l11)" by (cases L)
  have "(p * nat m + s) * 2 + 1 < nat n * nat m * 2" if "p < nat n" "s < nat m" for p s
    using flat_index [OF that] by simp
  then have "map (\<lambda>p. map (\<lambda>s.
                     (l00 * g' ((p * nat m + s) * 2),
                      l10 * g' ((p * nat m + s) * 2) + l11 * g' ((p * nat m + s) * 2 + 1)))
                   [0..<nat m]) [0..<nat n]
           = map (\<lambda>p. map (\<lambda>s.
                     (l00 * g ((p * nat m + s) * 2),
                      l10 * g ((p * nat m + s) * 2) + l11 * g ((p * nat m + s) * 2 + 1)))
                   [0..<nat m]) [0..<nat n]"
    using assms by (intro map_cong refl) (simp add: Suc_lessD)
  then show ?thesis
    using False by (simp add: L sample_eq)
qed

lemma randn_agree:
  assumes "\<forall>i<nat n * nat m. g' i = g i"
  shows "map_sum id fst (randn n m g') = map_sum id fst (randn n m g)"
proof (cases "n < 0 \<or> m < 0")
  case True
  then show ?thesis by (simp add: randn_def)
next
  case False
  have "map (\<lambda>p. map (\<lambda>s. g' (p * nat m + s)) [0..<nat m]) [0..<nat n]
        = map (\<lambda>p. map (\<lambda>s. g (p * nat m + s)) [0..<nat m]) [0..<nat n]"
    using assms by (intro map_cong refl) (simp add: flat_index)
  then show ?thesis
    using False by (simp add: randn_eq)
qed

lemma generate_rough_bergomi_agree:
  assumes "\<forall>i<3 * (nat (n_paths P) * nat (n_steps P - 1)). g' i = g i"
  shows "fst (generate_rough_bergomi P g') = fst (generate_rough_bergomi P g)"
proof (cases "dW1_generator (dt P) (alpha P)")
  case (Inl e)
  then show ?thesis by (simp add: generate_rough_bergomi_def)
next
  case (Inr L)
  let ?n = "n_paths P" and ?m = "n_steps P - 1"
  show ?thesis
  proof (cases "?n < 0 \<or> ?m < 0")
    case True
    then have "sample L ?n ?m g = Inl RuntimeError" "sample L ?n ?m g' = Inl RuntimeError"
      by (auto simp: sample_def)
    then show ?thesis using Inr by (simp add: generate_rough_bergomi_def)
  next
    case False
    then have nm: "0 \<le> ?n" "0 \<le> ?m" by simp_all
    obtain l00 l10 l11 where L: "L = (l00, l10, l11)" by (cases L)
    let ?K = "nat ?n * nat ?m"
    have a1: "\<forall>i<?K * 2. g' i = g i" using assms by simp
    have a2: "\<forall>i<?K. g' (?K * 2 + i) = g (?K * 2 + i)" using assms by simp
    from sample_agree [OF a1, of L] obtain dW1 where
      s: "sample L ?n ?m g = Inr (dW1, (\<lambda>i. g (?K * 2 + i)))"
         "sample L ?n ?m g' = Inr (dW1, (\<lambda>i. g' (?K * 2 + i)))"
      using nm by (simp add: L sample_eq)
    from randn_agree [of ?n ?m "\<lambda>i. g' (?K * 2 + i)" "\<lambda>i. g (?K * 2 + i)"] a2 obtain dW2 where
      z: "randn ?n ?m (\<lambda>i. g (?K * 2 + i)) = Inr (dW2, (\<lambda>i. g (?K * 2 + (?K + i))))"
         "randn ?n ?m (\<lambda>i. g' (?K * 2 + i)) = Inr (dW2, (\<lambda>i. g' (?K * 2 + (?K + i))))"
      using nm by (simp add: randn_eq)
    show ?thesis
      using Inr s z by (simp add: generate_rough_bergomi_def)
  qed
qed

section \<open>The claims\<close>

subsection \<open>C1: the first column\<close>



subsection \<open>C2: positive and finite entries\<close>

text \<open>
  C2 speaks of the arrays as the program returns them: whether an entry is zero or not
  finite is decided by the underflow and overflow of \<open>exp\<close> and of the products in the
  floating-point format, which the real-valued entries of this development do not have.
  The claim is therefore not stated here. What the exact arithmetic gives is lemma
  \<open>result_positive\<close>: with \<open>S0 > 0\<close>, \<open>V0 > 0\<close> and a correlation in \<open>[-1, 1]\<close>
  every entry of a returned pair is a positive real. It does not bound the entries away
  from zero or from above, so it does not carry over to the rounded arrays.
\<close>

subsection \<open>C3: the convolution\<close>

text \<open>
  C3: the term computed by \<^verbatim>\<open>conv1d\<close> and the reversed index selection is the direct
  causal weighted sum: for every path \<open>p\<close> and time index \<open>i\<close>,
  \<open>Y2[i]\<close> is the sum of \<open>gamma[i - j] * dW1[j]\<close> over \<open>j < i\<close>,
  \<open>Y[i] = sqrt(2 alpha + 1) * (Y1[i] + Y2[i])\<close>, \<open>Y[0] = 0\<close>, and \<open>Y[i]\<close> depends only on
  the draws with index below \<open>i\<close>: a tensor of draws that agrees with \<open>dW1\<close> on the first
  \<open>i\<close> draws of the path gives the same \<open>Y[i]\<close>. The draws are any tensor of the shape
  that the sampler delivers, for at least one path and two steps.
\<close>

theorem convolution_is_causal_sum:
  assumes n: "2 \<le> n_steps P" and a: "alpha P \<noteq> 0" and rows: "dW1 \<noteq> []"
    and shape: "\<forall>row\<in>set dW1. length row = nat (n_steps P - 1)"
  shows "\<exists>gam y2 y. gamma (alpha P) (n_steps P) = Inr gam
           \<and> Y2 gam (Xi dW1) (nat (n_steps P - 1)) (n_steps P) = Inr y2
           \<and> Y_of_draws P dW1 = Inr y
           \<and> (\<forall>p<length dW1. \<forall>i<nat (n_steps P).
                  y2 ! p ! i = Y2_direct gam (map fst (dW1 ! p)) i
                \<and> y ! p ! i = sqrt (2 * alpha P + 1) * (Y1 dW1 ! p ! i + y2 ! p ! i)
                \<and> y ! p ! 0 = 0
                \<and> (\<forall>dW1'. length dW1' = length dW1
                       \<and> (\<forall>row\<in>set dW1'. length row = nat (n_steps P - 1))
                       \<and> take i (dW1' ! p) = take i (dW1 ! p)
                     \<longrightarrow> (\<exists>y'. Y_of_draws P dW1' = Inr y' \<and> y' ! p ! i = y ! p ! i)))"
proof -
  from Y_of_draws_Inr [OF n a rows shape] obtain gam y2 y where
    gam: "gamma (alpha P) (n_steps P) = Inr gam" and
    y2: "Y2 gam (Xi dW1) (nat (n_steps P - 1)) (n_steps P) = Inr y2" and
    y: "Y_of_draws P dW1 = Inr y" and
    pt: "\<forall>p<length dW1. length (y2 ! p) = nat (n_steps P) \<and> length (y ! p) = nat (n_steps P)
          \<and> (\<forall>i<nat (n_steps P). y2 ! p ! i = Y2_direct gam (Xi dW1 ! p) i
               \<and> y ! p ! i = sqrt (2 * alpha P + 1) * (Y1 dW1 ! p ! i + y2 ! p ! i))"
    by blast
  have main: "y2 ! p ! i = Y2_direct gam (map fst (dW1 ! p)) i
                \<and> y ! p ! i = sqrt (2 * alpha P + 1) * (Y1 dW1 ! p ! i + y2 ! p ! i)
                \<and> y ! p ! 0 = 0
                \<and> (\<forall>dW1'. length dW1' = length dW1
                       \<and> (\<forall>row\<in>set dW1'. length row = nat (n_steps P - 1))
                       \<and> take i (dW1' ! p) = take i (dW1 ! p)
                     \<longrightarrow> (\<exists>y'. Y_of_draws P dW1' = Inr y' \<and> y' ! p ! i = y ! p ! i))"
    if p: "p < length dW1" and i: "i < nat (n_steps P)" for p i
  proof -
    have e1: "y2 ! p ! i = Y2_direct gam (map fst (dW1 ! p)) i"
      using pt p i by (simp add: Xi_shape)
    have e2: "y ! p ! i = sqrt (2 * alpha P + 1) * (Y1 dW1 ! p ! i + y2 ! p ! i)"
      using pt p i by blast
    have e3: "y ! p ! 0 = 0"
      using Y_of_draws_shape(3) [OF y shape p] .
    have len: "length (dW1 ! p) = nat (n_steps P - 1)" using shape p by simp
    have ile: "i \<le> nat (n_steps P - 1)" using i by simp
    have e4: "\<exists>y'. Y_of_draws P dW1' = Inr y' \<and> y' ! p ! i = y ! p ! i"
      if h: "length dW1' = length dW1 \<and> (\<forall>row\<in>set dW1'. length row = nat (n_steps P - 1))
             \<and> take i (dW1' ! p) = take i (dW1 ! p)" for dW1'
    proof -
      from h rows have rows': "dW1' \<noteq> []" by auto
      from h have shape': "\<forall>row\<in>set dW1'. length row = nat (n_steps P - 1)" by blast
      from h p have p': "p < length dW1'" by simp
      have len': "length (dW1' ! p) = nat (n_steps P - 1)" using shape' p' by simp
      from h have tk: "take i (dW1' ! p) = take i (dW1 ! p)" by blast
      from Y_of_draws_Inr [OF n a rows' shape'] gam obtain z2 y' where
        y': "Y_of_draws P dW1' = Inr y'" and
        pt': "\<forall>p<length dW1'. length (z2 ! p) = nat (n_steps P) \<and> length (y' ! p) = nat (n_steps P)
          \<and> (\<forall>i<nat (n_steps P). z2 ! p ! i = Y2_direct gam (Xi dW1' ! p) i
               \<and> y' ! p ! i = sqrt (2 * alpha P + 1) * (Y1 dW1' ! p ! i + z2 ! p ! i))"
        by auto
      have "y' ! p ! i = sqrt (2 * alpha P + 1)
              * ((0 # map snd (dW1' ! p)) ! i + Y2_direct gam (map fst (dW1' ! p)) i)"
        using pt' p' i by (simp add: Xi_shape Y1_shape)
      also have "(0 # map snd (dW1' ! p)) ! i = (0 # map snd (dW1 ! p)) ! i"
        by (rule Y1_row_take [OF tk]) (use ile len len' in simp_all)
      also have "Y2_direct gam (map fst (dW1' ! p)) i = Y2_direct gam (map fst (dW1 ! p)) i"
        by (rule Y2_direct_take [OF tk]) (use ile len len' in simp_all)
      also have "sqrt (2 * alpha P + 1)
              * ((0 # map snd (dW1 ! p)) ! i + Y2_direct gam (map fst (dW1 ! p)) i) = y ! p ! i"
        using e1 e2 p by (simp add: Y1_shape)
      finally show ?thesis using y' by blast
    qed
    show ?thesis using e1 e2 e3 e4 by blast
  qed
  show ?thesis using gam y2 y main by blast
qed

theorem convolution_is_causal_sum_witness:
  "2 \<le> n_steps docstring_params \<and> alpha docstring_params \<noteq> 0 \<and> example_draws \<noteq> []
   \<and> (\<exists>gam y. gamma (alpha docstring_params) (n_steps docstring_params) = Inr gam
         \<and> Y_of_draws docstring_params example_draws = Inr y
         \<and> y ! 0 ! 3 = sqrt (2 * alpha docstring_params + 1) * (6 + (gam ! 3 * 1 + gam ! 2 * 3 + gam ! 1 * 5))
         \<and> y ! 1 ! 0 = 0)"
proof -
  have n: "2 \<le> n_steps docstring_params" and a: "alpha docstring_params \<noteq> 0"
    by (simp_all add: docstring_params_def)
  have rows: "example_draws \<noteq> []" by (simp add: example_draws_def)
  have shape: "\<forall>row\<in>set example_draws. length row = nat (n_steps docstring_params - 1)"
    by (simp add: example_draws_def docstring_params_def)
  from convolution_is_causal_sum [OF n a rows shape] obtain gam y2 y where
    g: "gamma (alpha docstring_params) (n_steps docstring_params) = Inr gam" and
    y: "Y_of_draws docstring_params example_draws = Inr y" and
    pt: "\<forall>p<length example_draws. \<forall>i<nat (n_steps docstring_params).
                  y2 ! p ! i = Y2_direct gam (map fst (example_draws ! p)) i
                \<and> y ! p ! i = sqrt (2 * alpha docstring_params + 1) * (Y1 example_draws ! p ! i + y2 ! p ! i)
                \<and> y ! p ! 0 = 0"
    by blast
  have "(0::nat) < length example_draws" "(1::nat) < length example_draws"
       "(3::nat) < nat (n_steps docstring_params)"
    by (simp_all add: example_draws_def docstring_params_def)
  with pt have
    "y2 ! 0 ! 3 = Y2_direct gam (map fst (example_draws ! 0)) 3"
    "y ! 0 ! 3 = sqrt (2 * alpha docstring_params + 1) * (Y1 example_draws ! 0 ! 3 + y2 ! 0 ! 3)"
    "y ! 1 ! 0 = 0"
    by blast+
  moreover have "Y2_direct gam (map fst (example_draws ! 0)) 3 = gam ! 3 * 1 + gam ! 2 * 3 + gam ! 1 * 5"
    by (simp add: Y2_direct_def example_draws_def numeral_3_eq_3 numeral_2_eq_2)
  moreover have "Y1 example_draws ! 0 ! 3 = 6"
    by (simp add: Y1_def example_draws_def numeral_3_eq_3)
  ultimately show ?thesis using n a rows g y by auto
qed

subsection \<open>C4: the kernel weights\<close>

text \<open>
  C4, as stated: the weight sequence has length \<open>n_steps - 1\<close>. For \<open>n_steps = 3\<close> the
  sequence built on lines 117 to 121 has three entries, not two.
\<close>

theorem gamma_length_counterexample:
  "\<not> isl (gamma (- 2 / 5) 3) \<and> length (projr (gamma (- 2 / 5) 3)) = 3
   \<and> length (projr (gamma (- 2 / 5) 3)) \<noteq> nat (3 - 1)"
  by (simp add: gamma_def discrete_TBSS_fn_def arange_def zeros_def)

text \<open>
  C4, amended: for \<open>n_steps \<ge> 2\<close> the weight sequence is a function of
  \<open>(alpha, n_steps)\<close> alone; it has \<open>n_steps\<close> entries, its entries 0 and 1 are zero,
  its entry \<open>k\<close> for \<open>k = 2, ..., n_steps - 1\<close> is
  \<open>((((k^(alpha+1) - (k-1)^(alpha+1)) / (alpha+1))^(1/alpha)) / (n_steps-1))^alpha\<close>,
  and it is \<open>[0, 0]\<close> when \<open>n_steps < 3\<close>.
\<close>

theorem gamma_weights:
  assumes "a \<noteq> 0" "2 \<le> n"
  shows "\<exists>gs. gamma a n = Inr gs \<and> length gs = nat n \<and> gs ! 0 = 0 \<and> gs ! 1 = 0
           \<and> (\<forall>k. 2 \<le> k \<and> int k < n \<longrightarrow>
                 gs ! k = ((((real k powr (a + 1) - (real k - 1) powr (a + 1)) / (a + 1)) powr (1 / a))
                            / (of_int n - 1)) powr a)
           \<and> (n < 3 \<longrightarrow> gs = [0, 0])"
proof -
  let ?f = "\<lambda>k::real. ((((k powr (a + 1) - (k - 1) powr (a + 1)) / (a + 1)) powr (1 / a))
                          / of_int (n - 1)) powr a"
  let ?gs = "zeros 2 @ map ?f (map of_int [2..n - 1])"
  have g: "gamma a n = Inr ?gs" using assms by (rule gamma_Inr)
  have tail: "?gs ! k = ((((real k powr (a + 1) - (real k - 1) powr (a + 1)) / (a + 1)) powr (1 / a))
                            / (of_int n - 1)) powr a" if "2 \<le> k" "int k < n" for k
  proof -
    have "?gs ! k = map ?f (map of_int [2..n - 1]) ! (k - 2)"
      using that by (simp add: nth_append zeros_def)
    also have "\<dots> = ?f (map of_int [2..n - 1] ! (k - 2))"
      using that by simp
    also have "map of_int [2..n - 1] ! (k - 2) = real k"
      using that by simp
    finally show ?thesis by simp
  qed
  have small: "?gs = [0, 0]" if "n < 3"
    using that by (simp add: zeros_def numeral_2_eq_2)
  show ?thesis
    using g length_gamma[OF g] gamma_head[OF g] tail small by blast
qed

theorem gamma_weights_witness:
  "(- 2 / 5 :: real) \<noteq> 0 \<and> (2::int) \<le> 5 \<and>
   (\<exists>gs. gamma (- 2 / 5) 5 = Inr gs \<and> length gs = 5 \<and> gs ! 0 = 0 \<and> gs ! 1 = 0)"
  using gamma_weights [of "- 2 / 5" 5] by auto

subsection \<open>C5: the variance formula\<close>




subsection \<open>C6: invalid parameters\<close>

text \<open>
  C6, as stated: every invalid input, among them a negative \<open>eta\<close>, a correlation outside
  \<open>[-1, 1]\<close> and a negative \<open>xi\<close>, makes the call fail. The body has no validation
  step: the docstring call with \<open>eta = -1\<close>, with \<open>rho = 2\<close> and with \<open>xi = -1\<close>
  returns arrays.
\<close>

theorem no_validation_counterexample:
  "\<not> isl (fst (generate_rough_bergomi (docstring_params\<lparr>eta := - 1\<rparr>) zero_rng))
   \<and> \<not> isl (fst (generate_rough_bergomi (docstring_params\<lparr>rho := 2\<rparr>) zero_rng))
   \<and> \<not> isl (fst (generate_rough_bergomi (docstring_params\<lparr>xi := - 1\<rparr>) zero_rng))"
  by (intro conjI returns_not_isl) (simp_all add: docstring_params_def)

text \<open>
  C6, amended: for \<open>dt \<le> 0\<close>, \<open>n_steps < 1\<close>, \<open>n_paths < 1\<close> or \<open>alpha \<le> -1\<close> the call
  fails with an exception, nothing is returned, and the random generator is in the state
  in which the call found it: no variate has been drawn.
\<close>

theorem invalid_parameters_fail:
  assumes "dt P \<le> 0 \<or> n_steps P < 1 \<or> n_paths P < 1 \<or> alpha P \<le> - 1"
  shows "\<exists>e. generate_rough_bergomi P g = (Inl e, g)"
proof (cases "dW1_generator (dt P) (alpha P)")
  case (Inl e)
  then show ?thesis by (simp add: generate_rough_bergomi_def)
next
  case (Inr L)
  from dW1_generator_Inr_D [OF Inr] assms have dims: "n_steps P < 1 \<or> n_paths P < 1"
    by auto
  show ?thesis
  proof (cases "n_paths P < 0 \<or> n_steps P - 1 < 0")
    case True
    then have "sample L (n_paths P) (n_steps P - 1) g = Inl RuntimeError"
      by (auto simp: sample_def)
    then show ?thesis using Inr by (simp add: generate_rough_bergomi_def)
  next
    case False
    with dims have N: "n_paths P = 0" and m: "0 \<le> n_steps P - 1" by auto
    obtain dW1 where s: "sample L (n_paths P) (n_steps P - 1) g = Inr (dW1, g)"
      using sample_Inr [of "n_paths P" "n_steps P - 1" L g] N m by auto
    obtain dW2 where z: "randn (n_paths P) (n_steps P - 1) g = Inr (dW2, g)"
      using randn_Inr [of "n_paths P" "n_steps P - 1" g] N m by auto
    from sample_Inr_D [OF s] N have "dW1 = []" by simp
    then obtain e where "paths P dW1 dW2 = Inl e"
      using Y_of_draws_no_path [of P] paths_Inl by blast
    then show ?thesis
      using Inr s z by (simp add: generate_rough_bergomi_def)
  qed
qed

theorem invalid_parameters_fail_witness:
  "alpha (docstring_params\<lparr>alpha := - 1\<rparr>) \<le> - 1
   \<and> (\<exists>e. generate_rough_bergomi (docstring_params\<lparr>alpha := - 1\<rparr>) zero_rng = (Inl e, zero_rng))"
  using invalid_parameters_fail [of "docstring_params\<lparr>alpha := - 1\<rparr>" zero_rng] by simp

subsection \<open>C7: a single step\<close>

text \<open>
  C7: with \<open>n_steps = 1\<close> the call is to return single-column arrays equal to
  \<open>(S0, V0)\<close> without drawing. The body instead raises: \<^verbatim>\<open>torch.arange(2, 1)\<close> on
  line 118 is refused, since its end lies below its start; the convolution after it would
  be refused as well, its padding being \<open>-1\<close>. Nothing has been drawn at that point. The
  docstring call with \<open>n_steps = 1\<close>:
\<close>

theorem single_step_raises:
  "generate_rough_bergomi (docstring_params\<lparr>n_steps := 1\<rparr>) zero_rng = (Inl RuntimeError, zero_rng)"
  by (rule single_step) (simp_all add: docstring_params_def)

subsection \<open>C8: perfect negative correlation\<close>

text \<open>
  C8: for \<open>rho = -1\<close> the correlated price driver is the negated first Gaussian
  coordinate, \<open>dB[i] = - dW1[i]\<close> for every path and every step \<open>i\<close>, and the
  orthogonal component \<open>sqrt(1 - rho^2) * dW2[i]\<close> is zero.
\<close>

theorem rho_minus_one_driver:
  assumes "rho P = - 1"
    and "p < length dW1" "p < length dW2" "i < length (dW1 ! p)" "i < length (dW2 ! p)"
  shows "dB (rho P) (Xi dW1) dW2 ! p ! i = Some (- fst (dW1 ! p ! i))
       \<and> nan_lift2 (*) (torch_sqrt (1 - rho P * rho P)) (Some (dW2 ! p ! i)) = Some 0"
proof -
  have orth: "nan_lift2 (*) (torch_sqrt (1 - rho P * rho P)) (Some (dW2 ! p ! i)) = Some 0"
    using assms(1) by (simp add: torch_sqrt_def nan_lift2_def)
  have "dB (rho P) (Xi dW1) dW2 ! p ! i
        = nan_lift2 (+) (Some (rho P * Xi dW1 ! p ! i))
            (nan_lift2 (*) (torch_sqrt (1 - rho P * rho P)) (Some (dW2 ! p ! i)))"
    by (rule dB_nth) (use assms in \<open>simp_all add: Xi_shape\<close>)
  also have "\<dots> = Some (- fst (dW1 ! p ! i))"
    unfolding orth using assms by (simp add: nan_lift2_def Xi_shape)
  finally show ?thesis using orth by simp
qed

theorem rho_minus_one_driver_witness:
  "rho (docstring_params\<lparr>rho := - 1\<rparr>) = - 1
   \<and> dB (rho (docstring_params\<lparr>rho := - 1\<rparr>)) (Xi example_draws) [[1, 2, 3, 4], [5, 6, 7, 8]] ! 1 ! 2
       = Some (- 2)"
  using rho_minus_one_driver [of "docstring_params\<lparr>rho := - 1\<rparr>" 1 example_draws "[[1, 2, 3, 4], [5, 6, 7, 8]]" 2]
  by (simp add: example_draws_def)

subsection \<open>C9: determinism and the order of the draws\<close>

text \<open>
  C9: the result is determined by the parameters and the random stream, and the stream is
  read in a fixed order. With \<open>K = n_paths * (n_steps - 1)\<close>: two generator states that
  agree on their first \<open>3 K\<close> variates give the same result (arrays or exception); for
  valid parameters with at least two steps the bivariate draws are made first, from the
  variates \<open>0, ..., 2 K - 1\<close> in row-major order, two per draw, and the independent
  increments after them, from the variates \<open>2 K, ..., 3 K - 1\<close>; the generator is left
  advanced by \<open>3 K\<close>.
\<close>

theorem reproducible_draw_order:
  "(\<forall>g'. (\<forall>i<3 * (nat (n_paths P) * nat (n_steps P - 1)). g' i = g i)
         \<longrightarrow> fst (generate_rough_bergomi P g') = fst (generate_rough_bergomi P g))
   \<and> (valid_params P \<and> 2 \<le> n_steps P \<longrightarrow>
        (\<exists>l00 l10 l11 dW1 dW2 out.
            dW1_generator (dt P) (alpha P) = Inr (l00, l10, l11)
          \<and> sample (l00, l10, l11) (n_paths P) (n_steps P - 1) g
              = Inr (dW1, (\<lambda>i. g (nat (n_paths P) * nat (n_steps P - 1) * 2 + i)))
          \<and> randn (n_paths P) (n_steps P - 1) (\<lambda>i. g (nat (n_paths P) * nat (n_steps P - 1) * 2 + i))
              = Inr (dW2, (\<lambda>i. g (nat (n_paths P) * nat (n_steps P - 1) * 3 + i)))
          \<and> paths P dW1 dW2 = Inr out
          \<and> generate_rough_bergomi P g
              = (Inr out, (\<lambda>i. g (nat (n_paths P) * nat (n_steps P - 1) * 3 + i)))
          \<and> (\<forall>p<nat (n_paths P). \<forall>s<nat (n_steps P - 1).
                dW1 ! p ! s
                  = (l00 * g ((p * nat (n_steps P - 1) + s) * 2),
                     l10 * g ((p * nat (n_steps P - 1) + s) * 2)
                       + l11 * g ((p * nat (n_steps P - 1) + s) * 2 + 1))
              \<and> dW2 ! p ! s
                  = g (nat (n_paths P) * nat (n_steps P - 1) * 2 + (p * nat (n_steps P - 1) + s)))))"
proof (intro conjI allI impI)
  fix g' assume "\<forall>i<3 * (nat (n_paths P) * nat (n_steps P - 1)). g' i = g i"
  then show "fst (generate_rough_bergomi P g') = fst (generate_rough_bergomi P g)"
    by (rule generate_rough_bergomi_agree)
next
  assume v: "valid_params P \<and> 2 \<le> n_steps P"
  let ?n = "n_paths P" and ?m = "n_steps P - 1"
  let ?K = "nat ?n * nat ?m"
  from v have nm: "0 \<le> ?n" "0 \<le> ?m" by (simp_all add: valid_params_def)
  from v obtain L where "dW1_generator (dt P) (alpha P) = Inr L"
    using dW1_generator_Inr [of "dt P" "alpha P"] by (auto simp: valid_params_def)
  then obtain l00 l10 l11 where L: "dW1_generator (dt P) (alpha P) = Inr (l00, l10, l11)"
    by (cases L) simp
  define g1 where "g1 = (\<lambda>i. g (?K * 2 + i))"
  define g2 where "g2 = (\<lambda>i. g (?K * 3 + i))"
  define D1 where "D1 = map (\<lambda>p. map (\<lambda>s.
                     (l00 * g ((p * nat ?m + s) * 2),
                      l10 * g ((p * nat ?m + s) * 2) + l11 * g ((p * nat ?m + s) * 2 + 1)))
                   [0..<nat ?m]) [0..<nat ?n]"
  define D2 where "D2 = map (\<lambda>p. map (\<lambda>s. g1 (p * nat ?m + s)) [0..<nat ?m]) [0..<nat ?n]"
  have s: "sample (l00, l10, l11) ?n ?m g = Inr (D1, g1)"
    unfolding D1_def g1_def by (rule sample_eq [OF nm])
  have "randn ?n ?m g1 = Inr (D2, (\<lambda>i. g1 (?K + i)))"
    unfolding D2_def by (rule randn_eq [OF nm])
  moreover have "(\<lambda>i. g1 (?K + i)) = g2"
    unfolding g1_def g2_def by (rule ext) (simp add: algebra_simps)
  ultimately have z: "randn ?n ?m g1 = Inr (D2, g2)"
    by simp
  have r: "generate_rough_bergomi P g = (paths P D1 D2, g2)"
    using L s z by (simp add: generate_rough_bergomi_def)
  from v obtain spot var g3 where "generate_rough_bergomi P g = (Inr (spot, var), g3)"
    using valid_returns [of P g] by blast
  with r have "paths P D1 D2 = Inr (spot, var)" by (simp only: prod.inject)
  then obtain out where out: "paths P D1 D2 = Inr out" by blast
  have r': "generate_rough_bergomi P g = (Inr out, g2)"
    using r out by simp
  have ent: "\<forall>p<nat ?n. \<forall>s<nat ?m.
               D1 ! p ! s
                  = (l00 * g ((p * nat ?m + s) * 2),
                     l10 * g ((p * nat ?m + s) * 2) + l11 * g ((p * nat ?m + s) * 2 + 1))
              \<and> D2 ! p ! s = g (?K * 2 + (p * nat ?m + s))"
    by (simp add: D1_def D2_def g1_def)
  have "dW1_generator (dt P) (alpha P) = Inr (l00, l10, l11)
          \<and> sample (l00, l10, l11) ?n ?m g = Inr (D1, g1)
          \<and> randn ?n ?m g1 = Inr (D2, g2)
          \<and> paths P D1 D2 = Inr out
          \<and> generate_rough_bergomi P g = (Inr out, g2)
          \<and> (\<forall>p<nat ?n. \<forall>s<nat ?m.
               D1 ! p ! s
                  = (l00 * g ((p * nat ?m + s) * 2),
                     l10 * g ((p * nat ?m + s) * 2) + l11 * g ((p * nat ?m + s) * 2 + 1))
              \<and> D2 ! p ! s = g (?K * 2 + (p * nat ?m + s)))"
    using L s z out r' ent by blast
  then show "\<exists>l00 l10 l11 dW1 dW2 out.
            dW1_generator (dt P) (alpha P) = Inr (l00, l10, l11)
          \<and> sample (l00, l10, l11) (n_paths P) (n_steps P - 1) g
              = Inr (dW1, (\<lambda>i. g (nat (n_paths P) * nat (n_steps P - 1) * 2 + i)))
          \<and> randn (n_paths P) (n_steps P - 1) (\<lambda>i. g (nat (n_paths P) * nat (n_steps P - 1) * 2 + i))
              = Inr (dW2, (\<lambda>i. g (nat (n_paths P) * nat (n_steps P - 1) * 3 + i)))
          \<and> paths P dW1 dW2 = Inr out
          \<and> generate_rough_bergomi P g
              = (Inr out, (\<lambda>i. g (nat (n_paths P) * nat (n_steps P - 1) * 3 + i)))
          \<and> (\<forall>p<nat (n_paths P). \<forall>s<nat (n_steps P - 1).
                dW1 ! p ! s
                  = (l00 * g ((p * nat (n_steps P - 1) + s) * 2),
                     l10 * g ((p * nat (n_steps P - 1) + s) * 2)
                       + l11 * g ((p * nat (n_steps P - 1) + s) * 2 + 1))
              \<and> dW2 ! p ! s
                  = g (nat (n_paths P) * nat (n_steps P - 1) * 2 + (p * nat (n_steps P - 1) + s)))"
    unfolding g1_def g2_def by blast
qed

theorem reproducible_draw_order_witness:
  "valid_params docstring_params \<and> 2 \<le> n_steps docstring_params
   \<and> (\<exists>out. generate_rough_bergomi docstring_params zero_rng = (Inr out, zero_rng))
   \<and> fst (generate_rough_bergomi docstring_params zeros_then_ones_rng)
       = fst (generate_rough_bergomi docstring_params zero_rng)"
proof -
  have v: "valid_params docstring_params \<and> 2 \<le> n_steps docstring_params"
    by (simp add: valid_params_def docstring_params_def)
  have k: "3 * (nat (n_paths docstring_params) * nat (n_steps docstring_params - 1)) = 24"
    by (simp add: docstring_params_def)
  have agree: "\<forall>i<3 * (nat (n_paths docstring_params) * nat (n_steps docstring_params - 1)).
                  zeros_then_ones_rng i = zero_rng i"
    unfolding k by (simp add: zeros_then_ones_rng_def zero_rng_def)
  have shift: "(\<lambda>i. zero_rng (c + i)) = zero_rng" for c
    by (simp add: zero_rng_def)
  note t = reproducible_draw_order [of docstring_params zero_rng]
  from t agree have 1: "fst (generate_rough_bergomi docstring_params zeros_then_ones_rng)
       = fst (generate_rough_bergomi docstring_params zero_rng)"
    by blast
  from t v obtain out where "generate_rough_bergomi docstring_params zero_rng
       = (Inr out, (\<lambda>i. zero_rng (nat (n_paths docstring_params) * nat (n_steps docstring_params - 1) * 3 + i)))"
    by blast
  then have 2: "\<exists>out. generate_rough_bergomi docstring_params zero_rng = (Inr out, zero_rng)"
    unfolding shift by blast
  show ?thesis using v 1 2 by blast
qed

subsection \<open>C10: homogeneity in the initial spot\<close>

text \<open>
  C10 asks that scaling the initial spot by \<open>c\<close> multiplies every returned spot entry by
  exactly \<open>c\<close>. Line 144 is a rounded floating-point product, and whether
  \<open>(c * S0) * e\<close> and \<open>c * (S0 * e)\<close> round to the same number is a property of the
  number format; over the reals the two are equal by associativity. The claim is therefore
  not stated here. Lemma \<open>generate_rough_bergomi_scale\<close> records what the exact
  arithmetic gives, and that the variance array, the draws and the exceptions do not
  depend on the initial spot.
\<close>

end
